theory Spec2Isabelle
  imports Complex_Main
begin

section \<open>Binomial.py: the Cox-Ross-Rubinstein lattice pricer\<close>

text \<open>
  The Python class \<^verbatim>\<open>BinomialTree\<close> is embedded function by function. The arguments of
  the constructor are Python floats, taken as real numbers (\<^verbatim>\<open>steps\<close> is an integer and
  the style a string). A computed float is a value of the type \<open>npfloat\<close>: a real number,
  an infinity or NaN. The arithmetic on real numbers is exact: rounding, underflow and
  the overflow of a finite result are not followed, and neither are the limits of memory
  and running time. Python exceptions are values of the type \<open>py_error\<close>; a function that
  can raise returns \<open>py_error + 'a\<close>.
\<close>

subsection \<open>Exceptions, dictionaries and loops\<close>

datatype py_error = ZeroDivisionError | OverflowError | KeyError

definition bind_err :: "py_error + 'a \<Rightarrow> ('a \<Rightarrow> py_error + 'b) \<Rightarrow> py_error + 'b" where
  "bind_err m f = (case m of Inl e \<Rightarrow> Inl e | Inr x \<Rightarrow> f x)"

text \<open>\<^verbatim>\<open>D[k]\<close> on a dictionary raises \<^verbatim>\<open>KeyError\<close> when the key is absent.\<close>

definition getitem :: "('k \<rightharpoonup> 'v) \<Rightarrow> 'k \<Rightarrow> py_error + 'v" where
  "getitem D k = (case D k of None \<Rightarrow> Inl KeyError | Some v \<Rightarrow> Inr v)"

text \<open>
  \<^verbatim>\<open>for x in xs: body\<close> over a state \<open>s\<close>; an exception in the body leaves the loop.
\<close>

fun for_loop :: "'a list \<Rightarrow> ('s \<Rightarrow> 'a \<Rightarrow> py_error + 's) \<Rightarrow> 's \<Rightarrow> py_error + 's" where
  "for_loop [] body s = Inr s"
| "for_loop (x # xs) body s =
     (case body s x of Inl e \<Rightarrow> Inl e | Inr s' \<Rightarrow> for_loop xs body s')"

subsection \<open>Float arithmetic\<close>

text \<open>
  The result of a float operation: a real number, an infinity or NaN. numpy signals an
  invalid operation or a division by zero with a \<^verbatim>\<open>RuntimeWarning\<close> and returns NaN or an
  infinity; it raises no exception. Zero carries no sign here: a zero divisor stands for
  \<^verbatim>\<open>+0.0\<close>, which is what the difference of two equal finite floats is.
\<close>

datatype npfloat = Finite real | PosInf | NegInf | NaN

fun np_add :: "npfloat \<Rightarrow> npfloat \<Rightarrow> npfloat" where
  "np_add (Finite x) (Finite y) = Finite (x + y)"
| "np_add NaN b = NaN"
| "np_add a NaN = NaN"
| "np_add PosInf NegInf = NaN"
| "np_add NegInf PosInf = NaN"
| "np_add PosInf b = PosInf"
| "np_add NegInf b = NegInf"
| "np_add (Finite x) b = b"

fun np_sub :: "npfloat \<Rightarrow> npfloat \<Rightarrow> npfloat" where
  "np_sub (Finite x) (Finite y) = Finite (x - y)"
| "np_sub NaN b = NaN"
| "np_sub a NaN = NaN"
| "np_sub PosInf PosInf = NaN"
| "np_sub NegInf NegInf = NaN"
| "np_sub PosInf b = PosInf"
| "np_sub NegInf b = NegInf"
| "np_sub (Finite x) PosInf = NegInf"
| "np_sub (Finite x) NegInf = PosInf"

fun np_mul :: "npfloat \<Rightarrow> npfloat \<Rightarrow> npfloat" where
  "np_mul (Finite x) (Finite y) = Finite (x * y)"
| "np_mul NaN b = NaN"
| "np_mul a NaN = NaN"
| "np_mul (Finite x) PosInf = (if x > 0 then PosInf else if x < 0 then NegInf else NaN)"
| "np_mul (Finite x) NegInf = (if x > 0 then NegInf else if x < 0 then PosInf else NaN)"
| "np_mul PosInf (Finite y) = (if y > 0 then PosInf else if y < 0 then NegInf else NaN)"
| "np_mul NegInf (Finite y) = (if y > 0 then NegInf else if y < 0 then PosInf else NaN)"
| "np_mul PosInf PosInf = PosInf"
| "np_mul NegInf NegInf = PosInf"
| "np_mul PosInf NegInf = NegInf"
| "np_mul NegInf PosInf = NegInf"

fun np_divide :: "npfloat \<Rightarrow> npfloat \<Rightarrow> npfloat" where
  "np_divide (Finite x) (Finite y) =
     (if y \<noteq> 0 then Finite (x / y)
      else if x > 0 then PosInf else if x < 0 then NegInf else NaN)"
| "np_divide NaN b = NaN"
| "np_divide a NaN = NaN"
| "np_divide (Finite x) b = Finite 0"
| "np_divide PosInf (Finite y) = (if y \<ge> 0 then PosInf else NegInf)"
| "np_divide NegInf (Finite y) = (if y \<ge> 0 then NegInf else PosInf)"
| "np_divide a b = NaN"

text \<open>\<^verbatim>\<open>a > b\<close>: every comparison with NaN is false.\<close>

fun np_gt :: "npfloat \<Rightarrow> npfloat \<Rightarrow> bool" where
  "np_gt (Finite x) (Finite y) = (x > y)"
| "np_gt NaN b = False"
| "np_gt a NaN = False"
| "np_gt PosInf PosInf = False"
| "np_gt PosInf b = True"
| "np_gt NegInf b = False"
| "np_gt (Finite x) PosInf = False"
| "np_gt (Finite x) NegInf = True"

text \<open>
  Python's built-in \<^verbatim>\<open>max(a, b)\<close> keeps its first argument unless the second compares
  greater: \<^verbatim>\<open>max(nan, 0)\<close> is \<^verbatim>\<open>nan\<close>.
\<close>

definition py_max :: "npfloat \<Rightarrow> npfloat \<Rightarrow> npfloat" where
  "py_max a b = (if np_gt b a then b else a)"

type_synonym lattice = "int \<times> int \<rightharpoonup> npfloat"
type_synonym flags = "int \<times> int \<rightharpoonup> string"

subsection \<open>The price lattice (lines 70-80 and 117-127)\<close>

text \<open>
  The body of the inner loop:
  \<^verbatim>\<open>if j > 0: S[i, j] = S[i - 1, j - 1] * up  else: S[i, 0] = S[i - 1, 0] * down\<close>
\<close>

definition price_node ::
  "npfloat \<Rightarrow> npfloat \<Rightarrow> int \<Rightarrow> lattice \<Rightarrow> int \<Rightarrow> py_error + lattice" where
  "price_node up down i S j =
     (if j > 0
      then bind_err (getitem S (i - 1, j - 1)) (\<lambda>v. Inr (S((i, j) \<mapsto> np_mul v up)))
      else bind_err (getitem S (i - 1, 0)) (\<lambda>v. Inr (S((i, 0) \<mapsto> np_mul v down))))"

text \<open>
  \<^verbatim>\<open>S = {}; S[0, 0] = current_price\<close>, then
  \<^verbatim>\<open>for i in range(1, steps + 1): for j in range(0, i + 1): ...\<close>.
  The two pricing functions build the lattice with the same statements.
\<close>

definition price_lattice :: "real \<Rightarrow> npfloat \<Rightarrow> npfloat \<Rightarrow> int \<Rightarrow> py_error + lattice" where
  "price_lattice current_price up down steps =
     for_loop [1..steps] (\<lambda>S i. for_loop [0..i] (price_node up down i) S)
       (Map.empty((0, 0) \<mapsto> Finite current_price))"

subsection \<open>Backward induction (lines 83-99 and 130-146)\<close>

text \<open>
  The body of the inner loop of the valuation. The two pricing functions differ only
  in the expression of the immediate payoff, \<^verbatim>\<open>strike - S[i, j]\<close> for puts and
  \<^verbatim>\<open>S[i, j] - strike\<close> for calls; it is the parameter \<open>payoff\<close>, a function of the
  spot price. \<open>style\<close> is \<^verbatim>\<open>self.american_or_european\<close>.
  \<^verbatim>\<open>
  if i == steps:
      P[i, j] = max(payoff(S[i, j]), 0)
  else:
      P[i, j] = exp(-interest_rate * delta_time) * (
          q * P[i + 1, j + 1] + (1 - q) * P[i + 1, j])
  P[i, j] = max(P[i, j], 0)
  if P[i, j] > payoff(S[i, j]):
      exercise[i, j] = "no"
  else:
      exercise[i, j] = "yes"
  if self.american_or_european == "A":
      P[i, j] = max(P[i, j], payoff(S[i, j]))
  \<close>
\<close>

definition value_node ::
  "string \<Rightarrow> (npfloat \<Rightarrow> npfloat) \<Rightarrow> npfloat \<Rightarrow> real \<Rightarrow> real \<Rightarrow> int \<Rightarrow> lattice \<Rightarrow> int \<Rightarrow>
   lattice \<times> flags \<Rightarrow> int \<Rightarrow> py_error + lattice \<times> flags" where
  "value_node style payoff q interest_rate delta_time steps S i PE j =
     (case PE of (P, exercise) \<Rightarrow>
        bind_err
          (if i = steps
           then bind_err (getitem S (i, j)) (\<lambda>s. Inr (py_max (payoff s) (Finite 0)))
           else bind_err (getitem P (i + 1, j + 1)) (\<lambda>a.
                bind_err (getitem P (i + 1, j)) (\<lambda>b.
                Inr (np_mul (Finite (exp (- interest_rate * delta_time)))
                       (np_add (np_mul q a) (np_mul (np_sub (Finite 1) q) b))))))
          (\<lambda>v0.
             let v1 = py_max v0 (Finite 0) in
             bind_err (getitem S (i, j)) (\<lambda>s.
               let flag = (if np_gt v1 (payoff s) then ''no'' else ''yes'');
                   v2 = (if style = ''A'' then py_max v1 (payoff s) else v1)
               in Inr (P((i, j) \<mapsto> v2), exercise((i, j) \<mapsto> flag)))))"

text \<open>
  \<^verbatim>\<open>P = {}; exercise = {}\<close>, then
  \<^verbatim>\<open>for i in arange(steps, -1, -1): for j in range(0, i + 1): ...\<close>.
\<close>

definition backward_induction ::
  "string \<Rightarrow> (npfloat \<Rightarrow> npfloat) \<Rightarrow> npfloat \<Rightarrow> real \<Rightarrow> real \<Rightarrow> int \<Rightarrow> lattice \<Rightarrow>
   py_error + lattice \<times> flags" where
  "backward_induction style payoff q interest_rate delta_time steps S =
     for_loop (rev [0..steps])
       (\<lambda>PE i. for_loop [0..i] (value_node style payoff q interest_rate delta_time steps S i) PE)
       (Map.empty, Map.empty)"

text \<open>
  The two methods. The first argument is the attribute \<^verbatim>\<open>self.american_or_european\<close>,
  the only part of \<^verbatim>\<open>self\<close> that the methods read; the others are the parameters in
  the order of the source. \<^verbatim>\<open>up\<close>, \<^verbatim>\<open>down\<close> and \<^verbatim>\<open>risk_neutral_probability\<close> are computed
  floats; the others are arguments of the constructor. Both return
  \<^verbatim>\<open>S, P, exercise\<close>.
\<close>

definition calculate_all_nodes_for_puts ::
  "string \<Rightarrow> real \<Rightarrow> real \<Rightarrow> npfloat \<Rightarrow> npfloat \<Rightarrow> npfloat \<Rightarrow> int \<Rightarrow> real \<Rightarrow> real \<Rightarrow>
   py_error + lattice \<times> lattice \<times> flags" where
  "calculate_all_nodes_for_puts style strike current_price up down risk_neutral_probability
      steps delta_time interest_rate =
     bind_err (price_lattice current_price up down steps) (\<lambda>S.
     bind_err (backward_induction style (\<lambda>s. np_sub (Finite strike) s)
                 risk_neutral_probability interest_rate delta_time steps S) (\<lambda>(P, exercise).
     Inr (S, P, exercise)))"

definition calculate_all_nodes_for_calls ::
  "string \<Rightarrow> real \<Rightarrow> real \<Rightarrow> npfloat \<Rightarrow> npfloat \<Rightarrow> npfloat \<Rightarrow> int \<Rightarrow> real \<Rightarrow> real \<Rightarrow>
   py_error + lattice \<times> lattice \<times> flags" where
  "calculate_all_nodes_for_calls style strike current_price up down risk_neutral_probability
      steps delta_time interest_rate =
     bind_err (price_lattice current_price up down steps) (\<lambda>S.
     bind_err (backward_induction style (\<lambda>s. np_sub s (Finite strike))
                 risk_neutral_probability interest_rate delta_time steps S) (\<lambda>(P, exercise).
     Inr (S, P, exercise)))"

subsection \<open>The constructor (lines 5-54)\<close>

text \<open>
  \<^verbatim>\<open>up = exp(volatility * sqrt(delta_time)); down = exp(-volatility * sqrt(delta_time))\<close>.
  numpy's \<^verbatim>\<open>sqrt\<close> of a negative float is NaN, and so are its product with a float and
  the exponential of that.
\<close>

definition up_down :: "real \<Rightarrow> real \<Rightarrow> npfloat \<times> npfloat" where
  "up_down volatility delta_time =
     (if delta_time < 0 then (NaN, NaN)
      else (Finite (exp (volatility * sqrt delta_time)),
            Finite (exp (- volatility * sqrt delta_time))))"

text \<open>
  \<^verbatim>\<open>q = (exp((interest_rate - dividend_yield) * delta_time) - down) / ((up - down))\<close>.
  The bound check that follows in the source is commented out.
\<close>

definition risk_neutral_probability ::
  "real \<Rightarrow> real \<Rightarrow> real \<Rightarrow> npfloat \<Rightarrow> npfloat \<Rightarrow> real \<Rightarrow> npfloat" where
  "risk_neutral_probability interest_rate dividend_yield delta_time up down volatility =
     np_divide (np_sub (Finite (exp ((interest_rate - dividend_yield) * delta_time))) down)
       (np_sub up down)"

text \<open>The attributes that \<^verbatim>\<open>__init__\<close> stores on \<^verbatim>\<open>self\<close>.\<close>

record BinomialTree =
  self_steps :: int
  self_delta_time :: real
  self_strike :: real
  self_current_price :: real
  self_volatility :: real
  self_interest_rate :: real
  self_american_or_european :: string
  self_up :: npfloat
  self_down :: npfloat
  self_risk_neutral_probability :: npfloat

text \<open>
  To divide a float by an integer, Python converts the integer to a float, rounding to
  the nearest float, ties to even. An integer of magnitude \<open>2^1024 - 2^970\<close> or more rounds
  to \<open>2^1024\<close>, beyond the largest float, and the conversion raises
  \<^verbatim>\<open>OverflowError\<close>. The maturity is a float, as the signature of \<^verbatim>\<open>__init__\<close>
  says.
\<close>

definition int_too_large :: "int \<Rightarrow> bool" where
  "int_too_large n \<longleftrightarrow> 2 ^ 1024 - 2 ^ 970 \<le> \<bar>n\<bar>"

text \<open>
  \<^verbatim>\<open>__init__\<close>. The only statement that can raise is
  \<^verbatim>\<open>self.delta_time = time_to_maturity / steps\<close>, the division of a float by an integer:
  \<^verbatim>\<open>OverflowError\<close> when the integer does not convert to a float,
  \<^verbatim>\<open>ZeroDivisionError\<close> when it is zero. No parameter is checked.
\<close>

definition BinomialTree_init ::
  "int \<Rightarrow> real \<Rightarrow> real \<Rightarrow> real \<Rightarrow> real \<Rightarrow> real \<Rightarrow> real \<Rightarrow> string \<Rightarrow> py_error + BinomialTree" where
  "BinomialTree_init steps time_to_maturity strike current_price volatility interest_rate
      dividend_yield american_or_european =
     (if int_too_large steps then Inl OverflowError
      else if steps = 0 then Inl ZeroDivisionError
      else
        let delta_time = time_to_maturity / real_of_int steps;
            (up, down) = up_down volatility delta_time
        in Inr \<lparr> self_steps = steps,
                 self_delta_time = delta_time,
                 self_strike = strike,
                 self_current_price = current_price,
                 self_volatility = volatility,
                 self_interest_rate = interest_rate,
                 self_american_or_european = american_or_european,
                 self_up = up,
                 self_down = down,
                 self_risk_neutral_probability =
                   risk_neutral_probability interest_rate dividend_yield delta_time up down
                     volatility \<rparr>)"

subsection \<open>The method run (lines 150-174)\<close>

text \<open>The six attributes that \<^verbatim>\<open>run\<close> sets.\<close>

record run_result =
  put_S :: lattice
  put_P :: lattice
  put_exercise :: flags
  call_S :: lattice
  call_P :: lattice
  call_exercise :: flags

text \<open>\<^verbatim>\<open>run\<close> passes the stored attributes to the two pricing functions.\<close>

definition run :: "BinomialTree \<Rightarrow> py_error + run_result" where
  "run self =
     bind_err
       (calculate_all_nodes_for_puts (self_american_or_european self) (self_strike self)
          (self_current_price self) (self_up self) (self_down self)
          (self_risk_neutral_probability self) (self_steps self) (self_delta_time self)
          (self_interest_rate self)) (\<lambda>(pS, pP, pE).
     bind_err
       (calculate_all_nodes_for_calls (self_american_or_european self) (self_strike self)
          (self_current_price self) (self_up self) (self_down self)
          (self_risk_neutral_probability self) (self_steps self) (self_delta_time self)
          (self_interest_rate self)) (\<lambda>(cS, cP, cE).
     Inr \<lparr> put_S = pS, put_P = pP, put_exercise = pE,
           call_S = cS, call_P = cP, call_exercise = cE \<rparr>))"

subsection \<open>Reference functions for the proofs\<close>

text \<open>The spot price at row \<open>m\<close> and column \<open>j\<close>, by the recurrence of the source.\<close>

fun price_rec :: "real \<Rightarrow> npfloat \<Rightarrow> npfloat \<Rightarrow> nat \<Rightarrow> int \<Rightarrow> npfloat" where
  "price_rec S0 up down 0 j = Finite S0"
| "price_rec S0 up down (Suc m) j =
     (if j > 0 then np_mul (price_rec S0 up down m (j - 1)) up
      else np_mul (price_rec S0 up down m 0) down)"

text \<open>
  The price dictionary while row \<open>i\<close> is being filled: all rows before \<open>i\<close>, and row \<open>i\<close> up
  to column \<open>jm\<close>.
\<close>

definition price_part :: "real \<Rightarrow> npfloat \<Rightarrow> npfloat \<Rightarrow> int \<Rightarrow> int \<Rightarrow> lattice" where
  "price_part S0 up down i jm =
     (\<lambda>(a, b). if 0 \<le> b \<and> b \<le> a \<and> (a < i \<or> (a = i \<and> b \<le> jm))
                then Some (price_rec S0 up down (nat a) b) else None)"

text \<open>
  The value that line 93 leaves at a node (\<open>v\<close>), overridden by line 99 (146) with the
  immediate payoff \<open>x\<close> when the style is \<^verbatim>\<open>"A"\<close>.
\<close>

definition py_override :: "string \<Rightarrow> npfloat \<Rightarrow> npfloat \<Rightarrow> npfloat" where
  "py_override style v x = (if style = ''A'' then py_max v x else v)"

text \<open>
  The option value by backward recursion, \<open>k\<close> rows before the last row \<open>n\<close>, and the
  same by the row index.
\<close>

fun value_rec ::
  "string \<Rightarrow> (npfloat \<Rightarrow> npfloat) \<Rightarrow> npfloat \<Rightarrow> real \<Rightarrow> real \<Rightarrow> real \<Rightarrow> npfloat \<Rightarrow> npfloat \<Rightarrow>
   int \<Rightarrow> nat \<Rightarrow> int \<Rightarrow> npfloat" where
  "value_rec style payoff q r dt S0 up down n 0 j =
     py_override style
       (py_max (py_max (payoff (price_rec S0 up down (nat n) j)) (Finite 0)) (Finite 0))
       (payoff (price_rec S0 up down (nat n) j))"
| "value_rec style payoff q r dt S0 up down n (Suc k) j =
     py_override style
       (py_max
          (np_mul (Finite (exp (- r * dt)))
             (np_add (np_mul q (value_rec style payoff q r dt S0 up down n k (j + 1)))
                (np_mul (np_sub (Finite 1) q) (value_rec style payoff q r dt S0 up down n k j))))
          (Finite 0))
       (payoff (price_rec S0 up down (nat (n - int (Suc k))) j))"

definition value_at ::
  "string \<Rightarrow> (npfloat \<Rightarrow> npfloat) \<Rightarrow> npfloat \<Rightarrow> real \<Rightarrow> real \<Rightarrow> real \<Rightarrow> npfloat \<Rightarrow> npfloat \<Rightarrow>
   int \<Rightarrow> int \<Rightarrow> int \<Rightarrow> npfloat" where
  "value_at style payoff q r dt S0 up down n i j =
     value_rec style payoff q r dt S0 up down n (nat (n - i)) j"

text \<open>The value of a node after line 93 (140): before the override.\<close>

definition floored_at ::
  "string \<Rightarrow> (npfloat \<Rightarrow> npfloat) \<Rightarrow> npfloat \<Rightarrow> real \<Rightarrow> real \<Rightarrow> real \<Rightarrow> npfloat \<Rightarrow> npfloat \<Rightarrow>
   int \<Rightarrow> int \<Rightarrow> int \<Rightarrow> npfloat" where
  "floored_at style payoff q r dt S0 up down n i j =
     (if i = n
      then py_max (py_max (payoff (price_rec S0 up down (nat n) j)) (Finite 0)) (Finite 0)
      else py_max
             (np_mul (Finite (exp (- r * dt)))
                (np_add (np_mul q (value_at style payoff q r dt S0 up down n (i + 1) (j + 1)))
                   (np_mul (np_sub (Finite 1) q)
                      (value_at style payoff q r dt S0 up down n (i + 1) j))))
             (Finite 0))"

definition flag_at ::
  "string \<Rightarrow> (npfloat \<Rightarrow> npfloat) \<Rightarrow> npfloat \<Rightarrow> real \<Rightarrow> real \<Rightarrow> real \<Rightarrow> npfloat \<Rightarrow> npfloat \<Rightarrow>
   int \<Rightarrow> int \<Rightarrow> int \<Rightarrow> string" where
  "flag_at style payoff q r dt S0 up down n i j =
     (if np_gt (floored_at style payoff q r dt S0 up down n i j)
           (payoff (price_rec S0 up down (nat i) j))
      then ''no'' else ''yes'')"

text \<open>
  The dictionaries \<^verbatim>\<open>P\<close> and \<^verbatim>\<open>exercise\<close> while row \<open>i\<close> is being filled: all rows
  after \<open>i\<close> up to \<open>n\<close>, and row \<open>i\<close> up to column \<open>jm\<close>.
\<close>

definition node_part :: "(int \<Rightarrow> int \<Rightarrow> 'a) \<Rightarrow> int \<Rightarrow> int \<Rightarrow> int \<Rightarrow> (int \<times> int \<rightharpoonup> 'a)" where
  "node_part f n i jm =
     (\<lambda>(a, b). if 0 \<le> b \<and> b \<le> a \<and> a \<le> n \<and> (i < a \<or> (a = i \<and> b \<le> jm))
                then Some (f a b) else None)"

text \<open>
  For runs on finite numbers: the closed form of the spot price, the override and the
  backward recursion over the real numbers.
\<close>

definition price_fn :: "real \<Rightarrow> real \<Rightarrow> real \<Rightarrow> int \<Rightarrow> int \<Rightarrow> real" where
  "price_fn S0 u d i j = S0 * u ^ nat j * d ^ nat (i - j)"

definition override :: "string \<Rightarrow> real \<Rightarrow> real \<Rightarrow> real" where
  "override style v x = (if style = ''A'' then max v x else v)"

fun value_back ::
  "string \<Rightarrow> (real \<Rightarrow> real) \<Rightarrow> real \<Rightarrow> real \<Rightarrow> real \<Rightarrow> real \<Rightarrow> real \<Rightarrow> real \<Rightarrow> int \<Rightarrow>
   nat \<Rightarrow> int \<Rightarrow> real" where
  "value_back style payoff q r dt S0 u d n 0 j =
     override style (max (max (payoff (price_fn S0 u d n j)) 0) 0) (payoff (price_fn S0 u d n j))"
| "value_back style payoff q r dt S0 u d n (Suc k) j =
     override style
       (max (exp (- r * dt) * (q * value_back style payoff q r dt S0 u d n k (j + 1)
                               + (1 - q) * value_back style payoff q r dt S0 u d n k j)) 0)
       (payoff (price_fn S0 u d (n - int (Suc k)) j))"

section \<open>Loops\<close>

lemma bind_err_Inr [simp]: "bind_err (Inr x) f = f x"
  by (simp add: bind_err_def)

lemma bind_err_Inl [simp]: "bind_err (Inl e) f = Inl e"
  by (simp add: bind_err_def)

lemma getitem_Some: "D k = Some v \<Longrightarrow> getitem D k = Inr v"
  by (simp add: getitem_def)

lemma for_loop_snoc:
  "for_loop (xs @ [x]) body s = bind_err (for_loop xs body s) (\<lambda>s'. body s' x)"
  by (induction xs arbitrary: s) (auto split: sum.splits)

lemma for_loop_upto_snoc:
  "i \<le> j \<Longrightarrow> for_loop [i..j] body s = bind_err (for_loop [i..j - 1] body s) (\<lambda>s'. body s' j)"
  by (simp add: upto_rec2 [of i j] for_loop_snoc)

lemma for_loop_rev_upto_snoc:
  "i \<le> j \<Longrightarrow>
   for_loop (rev [i..j]) body s = bind_err (for_loop (rev [i + 1..j]) body s) (\<lambda>s'. body s' i)"
  by (simp add: upto_rec1 [of i j] for_loop_snoc)

section \<open>The price lattice\<close>

lemma price_rec_row:
  assumes "1 \<le> i"
  shows "price_rec S0 up down (nat i) j =
     (if j > 0 then np_mul (price_rec S0 up down (nat (i - 1)) (j - 1)) up
      else np_mul (price_rec S0 up down (nat (i - 1)) 0) down)"
proof -
  have "nat i = Suc (nat (i - 1))" using assms by simp
  then show ?thesis by simp
qed

lemma price_node_part:
  assumes "1 \<le> i" "- 1 \<le> jm" "jm < i"
  shows "price_node up down i (price_part S0 up down i jm) (jm + 1) =
         Inr (price_part S0 up down i (jm + 1))"
proof (cases "jm = - 1")
  case True
  have "price_part S0 up down i (- 1) (i - 1, 0) = Some (price_rec S0 up down (nat (i - 1)) 0)"
    using assms by (simp add: price_part_def)
  then have "price_node up down i (price_part S0 up down i (- 1)) 0 =
      Inr ((price_part S0 up down i (- 1))
             ((i, 0) \<mapsto> np_mul (price_rec S0 up down (nat (i - 1)) 0) down))"
    by (simp add: price_node_def getitem_Some)
  moreover have "np_mul (price_rec S0 up down (nat (i - 1)) 0) down =
      price_rec S0 up down (nat i) 0"
    by (simp add: price_rec_row [OF assms(1)])
  moreover have "(price_part S0 up down i (- 1))((i, 0) \<mapsto> price_rec S0 up down (nat i) 0) =
      price_part S0 up down i 0"
    using assms by (auto simp: price_part_def fun_eq_iff)
  ultimately show ?thesis using True by simp
next
  case False
  then have j: "0 \<le> jm" using assms by simp
  have "price_part S0 up down i jm (i - 1, jm) = Some (price_rec S0 up down (nat (i - 1)) jm)"
    using assms j by (simp add: price_part_def)
  then have "price_node up down i (price_part S0 up down i jm) (jm + 1) =
      Inr ((price_part S0 up down i jm)
             ((i, jm + 1) \<mapsto> np_mul (price_rec S0 up down (nat (i - 1)) jm) up))"
    using j by (simp add: price_node_def getitem_Some)
  moreover have "np_mul (price_rec S0 up down (nat (i - 1)) jm) up =
      price_rec S0 up down (nat i) (jm + 1)"
    using j by (simp add: price_rec_row [OF assms(1)])
  moreover have "(price_part S0 up down i jm)
        ((i, jm + 1) \<mapsto> price_rec S0 up down (nat i) (jm + 1)) =
      price_part S0 up down i (jm + 1)"
    using assms j by (auto simp: price_part_def fun_eq_iff)
  ultimately show ?thesis by simp
qed

lemma price_row:
  assumes "1 \<le> i" "- 1 \<le> jm" "jm \<le> i"
  shows "for_loop [0..jm] (price_node up down i) (price_part S0 up down i (- 1)) =
         Inr (price_part S0 up down i jm)"
  using assms(2,3)
proof (induction jm rule: int_ge_induct)
  case base
  show ?case by simp
next
  case (step k)
  then have "for_loop [0..k] (price_node up down i) (price_part S0 up down i (- 1)) =
      Inr (price_part S0 up down i k)" by simp
  moreover have "price_node up down i (price_part S0 up down i k) (k + 1) =
      Inr (price_part S0 up down i (k + 1))"
    using step assms(1) by (intro price_node_part) auto
  ultimately show ?case using step by (simp add: for_loop_upto_snoc [of 0 "k + 1"])
qed

lemma price_part_next: "price_part S0 up down (i + 1) (- 1) = price_part S0 up down i i"
  by (auto simp: price_part_def fun_eq_iff)

lemma price_rows:
  assumes "0 \<le> n"
  shows "for_loop [1..n] (\<lambda>S i. for_loop [0..i] (price_node up down i) S)
           (price_part S0 up down 0 0) =
         Inr (price_part S0 up down n n)"
  using assms
proof (induction n rule: int_ge_induct)
  case base
  show ?case by simp
next
  case (step k)
  have "for_loop [0..k + 1] (price_node up down (k + 1)) (price_part S0 up down (k + 1) (- 1)) =
      Inr (price_part S0 up down (k + 1) (k + 1))"
    using step by (intro price_row) auto
  then show ?case using step by (simp add: for_loop_upto_snoc [of 1 "k + 1"] price_part_next)
qed

lemma price_part_init: "Map.empty((0, 0) \<mapsto> Finite S0) = price_part S0 up down 0 0"
  by (auto simp: price_part_def fun_eq_iff)

lemma price_lattice_eq:
  "price_lattice S0 up down n = Inr (price_part S0 up down (max n 0) (max n 0))"
proof (cases "0 \<le> n")
  case True
  then show ?thesis
    unfolding price_lattice_def price_part_init [of S0 up down] by (simp add: price_rows max_def)
next
  case False
  then show ?thesis
    unfolding price_lattice_def price_part_init [of S0 up down] by (simp add: max_def)
qed

section \<open>Backward induction\<close>

lemma value_at_last:
  "value_at style payoff q r dt S0 up down n n j =
   py_override style (floored_at style payoff q r dt S0 up down n n j)
     (payoff (price_rec S0 up down (nat n) j))"
  by (simp add: value_at_def floored_at_def)

lemma value_at_inner:
  assumes "i < n"
  shows "value_at style payoff q r dt S0 up down n i j =
   py_override style (floored_at style payoff q r dt S0 up down n i j)
     (payoff (price_rec S0 up down (nat i) j))"
proof -
  obtain k where k: "nat (n - i) = Suc k" using assms by (cases "nat (n - i)") auto
  then have k1: "nat (n - (i + 1)) = k" by simp
  have "n - int (Suc k) = i" using k assms by linarith
  then show ?thesis using assms
    unfolding value_at_def floored_at_def k k1 by simp
qed

lemma value_at_unfold:
  "i \<le> n \<Longrightarrow> value_at style payoff q r dt S0 up down n i j =
   py_override style (floored_at style payoff q r dt S0 up down n i j)
     (payoff (price_rec S0 up down (nat i) j))"
  using value_at_last [of style payoff q r dt S0 up down n j]
    value_at_inner [of i n style payoff q r dt S0 up down j]
  by (cases "i = n") auto


lemma node_part_upd:
  assumes "0 \<le> i" "i \<le> n" "- 1 \<le> jm" "jm < i"
  shows "(node_part f n i jm)((i, jm + 1) \<mapsto> f i (jm + 1)) = node_part f n i (jm + 1)"
  using assms by (auto simp: node_part_def fun_eq_iff)

lemma node_part_next: "node_part f n (i - 1) (- 1) = node_part f n i i"
  by (auto simp: node_part_def fun_eq_iff)

lemma node_part_outside: "n < i \<Longrightarrow> node_part f n i jm = Map.empty"
  by (auto simp: node_part_def fun_eq_iff)

lemma price_part_full:
  "0 \<le> j \<Longrightarrow> j \<le> i \<Longrightarrow> i \<le> n \<Longrightarrow>
   price_part S0 up down n n (i, j) = Some (price_rec S0 up down (nat i) j)"
  by (auto simp: price_part_def)

lemma value_node_part:
  assumes "0 \<le> i" "i \<le> n" "- 1 \<le> jm" "jm < i"
  shows "value_node style payoff q r dt n (price_part S0 up down n n) i
           (node_part (value_at style payoff q r dt S0 up down n) n i jm,
            node_part (flag_at style payoff q r dt S0 up down n) n i jm) (jm + 1) =
         Inr (node_part (value_at style payoff q r dt S0 up down n) n i (jm + 1),
              node_part (flag_at style payoff q r dt S0 up down n) n i (jm + 1))"
proof -
  let ?V = "value_at style payoff q r dt S0 up down n"
  let ?F = "flag_at style payoff q r dt S0 up down n"
  have S: "getitem (price_part S0 up down n n) (i, jm + 1) =
      Inr (price_rec S0 up down (nat i) (jm + 1))"
    using assms by (intro getitem_Some price_part_full) auto
  have "value_node style payoff q r dt n (price_part S0 up down n n) i
           (node_part ?V n i jm, node_part ?F n i jm) (jm + 1) =
        Inr ((node_part ?V n i jm)((i, jm + 1) \<mapsto> ?V i (jm + 1)),
             (node_part ?F n i jm)((i, jm + 1) \<mapsto> ?F i (jm + 1)))"
  proof (cases "i = n")
    case True
    then show ?thesis using S
      by (simp add: value_node_def Let_def value_at_last floored_at_def flag_at_def
          py_override_def)
  next
    case False
    then have lt: "i < n" using assms by simp
    have "node_part ?V n i jm (i + 1, jm + 1 + 1) = Some (?V (i + 1) (jm + 1 + 1))"
      using assms lt by (simp add: node_part_def)
    then have a: "getitem (node_part ?V n i jm) (i + 1, jm + 1 + 1) =
        Inr (?V (i + 1) (jm + 1 + 1))"
      by (rule getitem_Some)
    have "node_part ?V n i jm (i + 1, jm + 1) = Some (?V (i + 1) (jm + 1))"
      using assms lt by (simp add: node_part_def)
    then have b: "getitem (node_part ?V n i jm) (i + 1, jm + 1) = Inr (?V (i + 1) (jm + 1))"
      by (rule getitem_Some)
    show ?thesis using S a b False
      by (simp add: value_node_def Let_def value_at_inner [OF lt] floored_at_def flag_at_def
          py_override_def)
  qed
  then show ?thesis using assms by (simp only: node_part_upd)
qed

lemma value_row:
  assumes "0 \<le> i" "i \<le> n" "- 1 \<le> jm" "jm \<le> i"
  shows "for_loop [0..jm] (value_node style payoff q r dt n (price_part S0 up down n n) i)
           (node_part (value_at style payoff q r dt S0 up down n) n i (- 1),
            node_part (flag_at style payoff q r dt S0 up down n) n i (- 1)) =
         Inr (node_part (value_at style payoff q r dt S0 up down n) n i jm,
              node_part (flag_at style payoff q r dt S0 up down n) n i jm)"
  using assms(3,4)
proof (induction jm rule: int_ge_induct)
  case base
  show ?case by simp
next
  case (step k)
  then have "for_loop [0..k] (value_node style payoff q r dt n (price_part S0 up down n n) i)
           (node_part (value_at style payoff q r dt S0 up down n) n i (- 1),
            node_part (flag_at style payoff q r dt S0 up down n) n i (- 1)) =
         Inr (node_part (value_at style payoff q r dt S0 up down n) n i k,
              node_part (flag_at style payoff q r dt S0 up down n) n i k)" by simp
  moreover have "value_node style payoff q r dt n (price_part S0 up down n n) i
           (node_part (value_at style payoff q r dt S0 up down n) n i k,
            node_part (flag_at style payoff q r dt S0 up down n) n i k) (k + 1) =
         Inr (node_part (value_at style payoff q r dt S0 up down n) n i (k + 1),
              node_part (flag_at style payoff q r dt S0 up down n) n i (k + 1))"
    using step assms(1,2) by (intro value_node_part) auto
  ultimately show ?case using step by (simp add: for_loop_upto_snoc [of 0 "k + 1"])
qed

lemma value_rows:
  assumes "0 \<le> i" "i \<le> n + 1"
  shows "for_loop (rev [i..n])
           (\<lambda>PE i. for_loop [0..i]
                      (value_node style payoff q r dt n (price_part S0 up down n n) i) PE)
           (Map.empty, Map.empty) =
         Inr (node_part (value_at style payoff q r dt S0 up down n) n i i,
              node_part (flag_at style payoff q r dt S0 up down n) n i i)"
  using assms(2,1)
proof (induction i rule: int_le_induct)
  case base
  show ?case by (simp add: node_part_outside)
next
  case (step k)
  have "for_loop [0..k - 1] (value_node style payoff q r dt n (price_part S0 up down n n) (k - 1))
           (node_part (value_at style payoff q r dt S0 up down n) n (k - 1) (- 1),
            node_part (flag_at style payoff q r dt S0 up down n) n (k - 1) (- 1)) =
         Inr (node_part (value_at style payoff q r dt S0 up down n) n (k - 1) (k - 1),
              node_part (flag_at style payoff q r dt S0 up down n) n (k - 1) (k - 1))"
    using step by (intro value_row) auto
  then show ?case using step
    by (simp add: for_loop_rev_upto_snoc [of "k - 1" n] node_part_next [of _ n k, symmetric])
qed

lemma backward_induction_eq:
  "backward_induction style payoff q r dt n (price_part S0 up down (max n 0) (max n 0)) =
   Inr (node_part (value_at style payoff q r dt S0 up down n) n 0 0,
        node_part (flag_at style payoff q r dt S0 up down n) n 0 0)"
proof (cases "0 \<le> n")
  case True
  then show ?thesis
    using value_rows [of 0 n style payoff q r dt S0 up down]
    by (simp add: backward_induction_def max_def)
next
  case False
  then show ?thesis by (simp add: backward_induction_def node_part_outside)
qed

section \<open>What the two pricing functions return\<close>

lemma node_part_full:
  "node_part f n 0 0 (i, j) = (if 0 \<le> j \<and> j \<le> i \<and> i \<le> n then Some (f i j) else None)"
  by (auto simp: node_part_def)

lemma calculate_all_nodes_for_puts_eq:
  "calculate_all_nodes_for_puts style K S0 up down q n dt r =
   Inr (price_part S0 up down (max n 0) (max n 0),
        node_part (value_at style (\<lambda>s. np_sub (Finite K) s) q r dt S0 up down n) n 0 0,
        node_part (flag_at style (\<lambda>s. np_sub (Finite K) s) q r dt S0 up down n) n 0 0)"
  by (simp add: calculate_all_nodes_for_puts_def price_lattice_eq backward_induction_eq)

lemma calculate_all_nodes_for_calls_eq:
  "calculate_all_nodes_for_calls style K S0 up down q n dt r =
   Inr (price_part S0 up down (max n 0) (max n 0),
        node_part (value_at style (\<lambda>s. np_sub s (Finite K)) q r dt S0 up down n) n 0 0,
        node_part (flag_at style (\<lambda>s. np_sub s (Finite K)) q r dt S0 up down n) n 0 0)"
  by (simp add: calculate_all_nodes_for_calls_def price_lattice_eq backward_induction_eq)

lemma run_eq:
  "run self =
   Inr \<lparr> put_S = price_part (self_current_price self) (self_up self) (self_down self)
                    (max (self_steps self) 0) (max (self_steps self) 0),
         put_P = node_part (value_at (self_american_or_european self)
                    (\<lambda>s. np_sub (Finite (self_strike self)) s)
                    (self_risk_neutral_probability self) (self_interest_rate self)
                    (self_delta_time self) (self_current_price self) (self_up self)
                    (self_down self) (self_steps self)) (self_steps self) 0 0,
         put_exercise = node_part (flag_at (self_american_or_european self)
                    (\<lambda>s. np_sub (Finite (self_strike self)) s)
                    (self_risk_neutral_probability self) (self_interest_rate self)
                    (self_delta_time self) (self_current_price self) (self_up self)
                    (self_down self) (self_steps self)) (self_steps self) 0 0,
         call_S = price_part (self_current_price self) (self_up self) (self_down self)
                    (max (self_steps self) 0) (max (self_steps self) 0),
         call_P = node_part (value_at (self_american_or_european self)
                    (\<lambda>s. np_sub s (Finite (self_strike self)))
                    (self_risk_neutral_probability self) (self_interest_rate self)
                    (self_delta_time self) (self_current_price self) (self_up self)
                    (self_down self) (self_steps self)) (self_steps self) 0 0,
         call_exercise = node_part (flag_at (self_american_or_european self)
                    (\<lambda>s. np_sub s (Finite (self_strike self)))
                    (self_risk_neutral_probability self) (self_interest_rate self)
                    (self_delta_time self) (self_current_price self) (self_up self)
                    (self_down self) (self_steps self)) (self_steps self) 0 0 \<rparr>"
  by (simp add: run_def calculate_all_nodes_for_puts_eq calculate_all_nodes_for_calls_eq)

section \<open>Runs on finite numbers\<close>

text \<open>
  When the up and down factors and the risk-neutral probability are real numbers, every
  stored price and value is one, given by the closed form and by the recursion over the
  real numbers.
\<close>

lemma py_max_Finite [simp]: "py_max (Finite a) (Finite b) = Finite (max a b)"
  by (simp add: py_max_def max_def)

lemma py_override_Finite [simp]:
  "py_override style (Finite v) (Finite x) = Finite (override style v x)"
  by (simp add: py_override_def override_def)

lemma price_fn_up:
  "0 \<le> j \<Longrightarrow> j < i \<Longrightarrow> price_fn S0 u d (i - 1) j * u = price_fn S0 u d i (j + 1)"
proof -
  assume j: "0 \<le> j" "j < i"
  have "nat (j + 1) = Suc (nat j)" using j by simp
  moreover have "nat (i - 1 - j) = nat (i - (j + 1))" by simp
  ultimately show ?thesis unfolding price_fn_def by (simp only: power_Suc) simp
qed

lemma price_fn_down:
  assumes "j < i"
  shows "price_fn S0 u d (i - 1) j * d = price_fn S0 u d i j"
proof -
  have "nat (i - j) = Suc (nat (i - 1 - j))" using assms by simp
  then show ?thesis unfolding price_fn_def by (simp only: power_Suc) simp
qed

lemma price_rec_Finite:
  "0 \<le> j \<Longrightarrow> j \<le> int m \<Longrightarrow>
   price_rec S0 (Finite u) (Finite d) m j = Finite (price_fn S0 u d (int m) j)"
proof (induction m arbitrary: j)
  case 0
  then show ?case by (simp add: price_fn_def)
next
  case (Suc m)
  show ?case
  proof (cases "j > 0")
    case True
    have "price_rec S0 (Finite u) (Finite d) m (j - 1) = Finite (price_fn S0 u d (int m) (j - 1))"
      using Suc.prems True by (intro Suc.IH) auto
    moreover have "price_fn S0 u d (int (Suc m) - 1) (j - 1) * u =
        price_fn S0 u d (int (Suc m)) (j - 1 + 1)"
      using Suc.prems True by (intro price_fn_up) auto
    ultimately show ?thesis using True by simp
  next
    case False
    then have j: "j = 0" using Suc.prems by simp
    have "price_rec S0 (Finite u) (Finite d) m 0 = Finite (price_fn S0 u d (int m) 0)"
      by (intro Suc.IH) auto
    moreover have "price_fn S0 u d (int (Suc m) - 1) 0 * d = price_fn S0 u d (int (Suc m)) 0"
      by (intro price_fn_down) auto
    ultimately show ?thesis using j by simp
  qed
qed

lemma price_rec_Finite_int:
  assumes "0 \<le> j" "j \<le> i"
  shows "price_rec S0 (Finite u) (Finite d) (nat i) j = Finite (price_fn S0 u d i j)"
  using price_rec_Finite [of j "nat i" S0 u d] assms by simp

lemma value_rec_Finite:
  assumes pay: "\<And>x. payoff' (Finite x) = Finite (payoff x)"
  shows "0 \<le> j \<Longrightarrow> j \<le> n - int k \<Longrightarrow>
     value_rec style payoff' (Finite q) r dt S0 (Finite u) (Finite d) n k j =
     Finite (value_back style payoff q r dt S0 u d n k j)"
proof (induction k arbitrary: j)
  case 0
  then show ?case by (simp add: price_rec_Finite_int pay)
next
  case (Suc k)
  have a: "value_rec style payoff' (Finite q) r dt S0 (Finite u) (Finite d) n k (j + 1) =
      Finite (value_back style payoff q r dt S0 u d n k (j + 1))"
    using Suc.prems by (intro Suc.IH) auto
  have b: "value_rec style payoff' (Finite q) r dt S0 (Finite u) (Finite d) n k j =
      Finite (value_back style payoff q r dt S0 u d n k j)"
    using Suc.prems by (intro Suc.IH) auto
  have s: "price_rec S0 (Finite u) (Finite d) (nat (n - int (Suc k))) j =
      Finite (price_fn S0 u d (n - int (Suc k)) j)"
    using Suc.prems by (intro price_rec_Finite_int) auto
  show ?case
    unfolding value_rec.simps value_back.simps a b s by (simp add: pay)
qed

lemma value_at_Finite:
  assumes "\<And>x. payoff' (Finite x) = Finite (payoff x)" "0 \<le> j" "j \<le> i" "i \<le> n"
  shows "value_at style payoff' (Finite q) r dt S0 (Finite u) (Finite d) n i j =
     Finite (value_back style payoff q r dt S0 u d n (nat (n - i)) j)"
  unfolding value_at_def using assms by (intro value_rec_Finite) auto

subsection \<open>The recursion over the real numbers\<close>

lemma override_ge: "v \<le> override style v x"
  by (simp add: override_def)

lemma value_back_nonneg: "0 \<le> value_back style payoff q r dt S0 u d n k j"
proof (cases k)
  case 0
  have "0 \<le> max (max (payoff (price_fn S0 u d n j)) 0) 0" by simp
  then show ?thesis unfolding 0 value_back.simps by (rule order_trans [OF _ override_ge])
next
  case (Suc m)
  have "0 \<le> max (exp (- r * dt) * (q * value_back style payoff q r dt S0 u d n m (j + 1)
                               + (1 - q) * value_back style payoff q r dt S0 u d n m j)) 0"
    by simp
  then show ?thesis unfolding Suc value_back.simps by (rule order_trans [OF _ override_ge])
qed

lemma cont_mono:
  fixes q :: real
  assumes "0 \<le> q" "q \<le> 1" "a \<le> a'" "b \<le> b'"
  shows "max (exp x * (q * a + (1 - q) * b)) 0 \<le> max (exp x * (q * a' + (1 - q) * b')) 0"
proof -
  have 1: "q * a \<le> q * a'" using assms by (simp add: mult_left_mono)
  have 2: "(1 - q) * b \<le> (1 - q) * b'" using assms by (simp add: mult_left_mono)
  have "q * a + (1 - q) * b \<le> q * a' + (1 - q) * b'" using 1 2 by (rule add_mono)
  then have "exp x * (q * a + (1 - q) * b) \<le> exp x * (q * a' + (1 - q) * b')"
    by simp
  then show ?thesis by (rule max.mono) simp
qed

lemma override_mono: "v \<le> v' \<Longrightarrow> x \<le> x' \<Longrightarrow> override style v x \<le> override style v' x'"
  by (auto simp: override_def)

lemma override_le_american: "v \<le> v' \<Longrightarrow> override style v x \<le> override ''A'' v' x"
  by (auto simp: override_def)

lemma value_back_le_american:
  assumes "0 \<le> q" "q \<le> 1"
  shows "value_back style payoff q r dt S0 u d n k j \<le> value_back ''A'' payoff q r dt S0 u d n k j"
proof (induction k arbitrary: j)
  case 0
  show ?case by (simp add: override_le_american)
next
  case (Suc k)
  show ?case
    unfolding value_back.simps
    by (intro override_le_american cont_mono assms Suc.IH)
qed

lemma value_back_mono_payoff:
  assumes "0 \<le> q" "q \<le> 1" "\<And>s. g1 s \<le> g2 s"
  shows "value_back style g1 q r dt S0 u d n k j \<le> value_back style g2 q r dt S0 u d n k j"
proof (induction k arbitrary: j)
  case 0
  show ?case
    unfolding value_back.simps by (intro override_mono max.mono assms order_refl)
next
  case (Suc k)
  show ?case
    unfolding value_back.simps
    by (intro override_mono cont_mono assms Suc.IH)
qed

lemma european_step:
  fixes q :: real
  assumes "style \<noteq> ''A''" "0 \<le> q" "q \<le> 1"
  shows "value_back style payoff q r dt S0 u d n (Suc k) j =
         exp (- r * dt) * (q * value_back style payoff q r dt S0 u d n k (j + 1)
                           + (1 - q) * value_back style payoff q r dt S0 u d n k j)"
proof -
  have "0 \<le> q * value_back style payoff q r dt S0 u d n k (j + 1)
            + (1 - q) * value_back style payoff q r dt S0 u d n k j"
    using assms(2,3) by (intro add_nonneg_nonneg mult_nonneg_nonneg value_back_nonneg) auto
  then have "0 \<le> exp (- r * dt) * (q * value_back style payoff q r dt S0 u d n k (j + 1)
                           + (1 - q) * value_back style payoff q r dt S0 u d n k j)"
    by (intro mult_nonneg_nonneg) auto
  then show ?thesis using assms(1) by (simp add: override_def max_def)
qed

lemma parity_back:
  fixes q :: real
  assumes "style \<noteq> ''A''" "0 \<le> q" "q \<le> 1" "q * u + (1 - q) * d = exp ((r - y) * dt)"
  shows "0 \<le> j \<Longrightarrow> j \<le> n - int k \<Longrightarrow>
         value_back style (\<lambda>s. s - K) q r dt S0 u d n k j
           - value_back style (\<lambda>s. K - s) q r dt S0 u d n k j =
         price_fn S0 u d (n - int k) j * exp (- y * dt * real k) - K * exp (- r * dt * real k)"
proof (induction k arbitrary: j)
  case 0
  show ?case using assms(1) by (simp add: override_def max_def)
next
  case (Suc k)
  let ?C = "value_back style (\<lambda>s. s - K) q r dt S0 u d n k"
  let ?P = "value_back style (\<lambda>s. K - s) q r dt S0 u d n k"
  let ?s = "price_fn S0 u d (n - int (Suc k)) j"
  let ?Ey = "exp (- y * dt * real k)"
  let ?Er = "exp (- r * dt * real k)"
  have i: "n - int (Suc k) = n - int k - 1" by simp
  have pu: "price_fn S0 u d (n - int k) (j + 1) = ?s * u"
    unfolding i using Suc.prems by (intro price_fn_up [symmetric]) auto
  have pd: "price_fn S0 u d (n - int k) j = ?s * d"
    unfolding i using Suc.prems by (intro price_fn_down [symmetric]) auto
  have ih1: "?C (j + 1) - ?P (j + 1) = ?s * u * ?Ey - K * ?Er"
    using Suc.IH [of "j + 1"] Suc.prems by (simp add: pu)
  have ih0: "?C j - ?P j = ?s * d * ?Ey - K * ?Er"
    using Suc.IH [of j] Suc.prems by (simp add: pd)
  have e1: "exp (- r * dt) * (?Ey * exp ((r - y) * dt)) = exp (- y * dt * real (Suc k))"
    by (simp add: exp_add [symmetric] algebra_simps)
  have e2: "exp (- r * dt) * ?Er = exp (- r * dt * real (Suc k))"
    by (simp add: exp_add [symmetric] algebra_simps)
  have "value_back style (\<lambda>s. s - K) q r dt S0 u d n (Suc k) j
           - value_back style (\<lambda>s. K - s) q r dt S0 u d n (Suc k) j =
        exp (- r * dt) * (q * (?C (j + 1) - ?P (j + 1)) + (1 - q) * (?C j - ?P j))"
    unfolding european_step [OF assms(1-3)] by (simp add: algebra_simps)
  also have "\<dots> = exp (- r * dt) * (?s * ?Ey * (q * u + (1 - q) * d) - K * ?Er)"
    unfolding ih1 ih0 by (simp add: algebra_simps)
  also have "\<dots> = exp (- r * dt) * (?s * ?Ey * exp ((r - y) * dt) - K * ?Er)"
    unfolding assms(4) ..
  also have "\<dots> = ?s * (exp (- r * dt) * (?Ey * exp ((r - y) * dt)))
                    - K * (exp (- r * dt) * ?Er)"
    by (simp add: algebra_simps)
  also have "\<dots> = ?s * exp (- y * dt * real (Suc k)) - K * exp (- r * dt * real (Suc k))"
    unfolding e1 e2 ..
  finally show ?case .
qed

lemma np_divide_Finite:
  "np_divide (Finite a) (Finite b) = Finite p \<Longrightarrow> b \<noteq> 0 \<and> p = a / b"
  by (auto split: if_splits)

lemma martingale:
  fixes u :: real
  assumes "u - d \<noteq> 0" "p = (e - d) / (u - d)"
  shows "p * u + (1 - p) * d = e"
proof -
  have "p * (u - d) = e - d" using assms by simp
  then show ?thesis by (simp add: algebra_simps)
qed

section \<open>The price lattice in closed form\<close>

text \<open>
  Claim C2. For every pricer with \<open>N \<ge> 1\<close> steps, the price lattice that the forward
  recurrence of the two pricing functions builds (\<open>S[0,0] = S0\<close>, \<open>S[i,0] = S[i-1,0] * d\<close>,
  \<open>S[i,j] = S[i-1,j-1] * u\<close> for \<open>j > 0\<close>) is built without an exception and holds
  \<open>S0 * u^j * d^(i-j)\<close> at every node \<open>(i, j)\<close> with \<open>0 \<le> j \<le> i \<le> N\<close>. The factors \<open>u\<close> and \<open>d\<close>
  are real numbers; the risk-neutral probability \<open>q\<close> is any float.
\<close>

theorem price_lattice_closed_form:
  assumes "1 \<le> steps"
  shows "\<exists>S. price_lattice S0 (Finite u) (Finite d) steps = Inr S \<and>
           (\<exists>P E. calculate_all_nodes_for_puts style K S0 (Finite u) (Finite d) q steps dt r =
                     Inr (S, P, E)) \<and>
           (\<exists>P E. calculate_all_nodes_for_calls style K S0 (Finite u) (Finite d) q steps dt r =
                     Inr (S, P, E)) \<and>
           (\<forall>i j. 0 \<le> j \<and> j \<le> i \<and> i \<le> steps \<longrightarrow>
              S (i, j) = Some (Finite (S0 * u ^ nat j * d ^ nat (i - j))))"
proof -
  have "max steps 0 = steps" using assms by simp
  then show ?thesis
    by (simp add: price_lattice_eq calculate_all_nodes_for_puts_eq
        calculate_all_nodes_for_calls_eq price_part_full price_rec_Finite_int price_fn_def)
qed

text \<open>Two steps from 100 with \<open>u = 2\<close> and \<open>d = 1/2\<close>: the last row is 25, 100, 400.\<close>

theorem price_lattice_closed_form_witness:
  "\<exists>S P E. calculate_all_nodes_for_puts ''E'' 90 100 (Finite 2) (Finite (1 / 2)) (Finite (1 / 3))
              2 1 0 = Inr (S, P, E) \<and>
     S (2, 1) = Some (Finite 100) \<and> S (2, 2) = Some (Finite 400) \<and> S (2, 0) = Some (Finite 25)"
proof -
  have h: "(1::int) \<le> 2" by simp
  from price_lattice_closed_form [OF h, of 100 2 "1 / 2" "''E''" 90 "Finite (1 / 3)" 1 0]
  obtain S P E where
    c: "calculate_all_nodes_for_puts ''E'' 90 100 (Finite 2) (Finite (1 / 2)) (Finite (1 / 3))
          2 1 0 = Inr (S, P, E)"
    and s: "\<forall>i j. 0 \<le> j \<and> j \<le> i \<and> i \<le> 2 \<longrightarrow>
              S (i, j) = Some (Finite (100 * 2 ^ nat j * (1 / 2) ^ nat (i - j)))"
    by blast
  have "S (2, 1) = Some (Finite 100)" using s [rule_format, of 1 2] by simp
  moreover have "S (2, 2) = Some (Finite 400)" using s [rule_format, of 2 2] by simp
  moreover have "S (2, 0) = Some (Finite 25)"
    using s [rule_format, of 0 2] by (simp add: power2_eq_square)
  ultimately show ?thesis using c by blast
qed

section \<open>The style string\<close>

lemma value_node_style:
  "style \<noteq> ''A'' \<Longrightarrow>
   value_node style payoff q r dt n S i PE j = value_node ''E'' payoff q r dt n S i PE j"
  by (simp add: value_node_def)

lemma backward_induction_style:
  "style \<noteq> ''A'' \<Longrightarrow>
   backward_induction style payoff q r dt n S = backward_induction ''E'' payoff q r dt n S"
proof -
  assume "style \<noteq> ''A''"
  then have "value_node style payoff q r dt n S = value_node ''E'' payoff q r dt n S"
    by (intro ext value_node_style)
  then show ?thesis by (simp add: backward_induction_def)
qed

text \<open>
  Claim C10. For every style string other than exactly \<^verbatim>\<open>"A"\<close>, the two pricing
  functions raise no exception and return what they return for the style \<^verbatim>\<open>"E"\<close> with
  the same parameters, whatever floats the factors and the probability are, and so does
  \<^verbatim>\<open>run\<close> on an object that differs in the style attribute only: the override with the
  immediate payoff is applied for \<^verbatim>\<open>"A"\<close> alone.
\<close>

theorem style_other_than_A:
  assumes "style \<noteq> ''A''"
  shows "calculate_all_nodes_for_puts style K S0 up down q steps dt r =
           calculate_all_nodes_for_puts ''E'' K S0 up down q steps dt r \<and>
         calculate_all_nodes_for_calls style K S0 up down q steps dt r =
           calculate_all_nodes_for_calls ''E'' K S0 up down q steps dt r \<and>
         (\<exists>res. calculate_all_nodes_for_puts style K S0 up down q steps dt r = Inr res) \<and>
         (\<exists>res. calculate_all_nodes_for_calls style K S0 up down q steps dt r = Inr res) \<and>
         run (self\<lparr>self_american_or_european := style\<rparr>) =
           run (self\<lparr>self_american_or_european := ''E''\<rparr>) \<and>
         (\<exists>res. run (self\<lparr>self_american_or_european := style\<rparr>) = Inr res)"
proof -
  have p: "calculate_all_nodes_for_puts style K S0 up down q steps dt r =
           calculate_all_nodes_for_puts ''E'' K S0 up down q steps dt r"
    for K S0 up down q steps dt r
    unfolding calculate_all_nodes_for_puts_def backward_induction_style [OF assms] ..
  have c: "calculate_all_nodes_for_calls style K S0 up down q steps dt r =
           calculate_all_nodes_for_calls ''E'' K S0 up down q steps dt r"
    for K S0 up down q steps dt r
    unfolding calculate_all_nodes_for_calls_def backward_induction_style [OF assms] ..
  have "run (self\<lparr>self_american_or_european := style\<rparr>) =
           run (self\<lparr>self_american_or_european := ''E''\<rparr>)"
    by (simp add: run_def p c)
  moreover have "\<exists>res. run (self\<lparr>self_american_or_european := style\<rparr>) = Inr res"
    unfolding run_eq by blast
  ultimately show ?thesis
    using p c by (simp add: calculate_all_nodes_for_puts_eq calculate_all_nodes_for_calls_eq)
qed

text \<open>The strings \<^verbatim>\<open>"American"\<close> and \<^verbatim>\<open>"a"\<close> price as \<^verbatim>\<open>"E"\<close> does.\<close>

theorem style_other_than_A_witness:
  "''American'' \<noteq> ''A'' \<and>
   calculate_all_nodes_for_puts ''American'' 90 100 (Finite 2) (Finite (1 / 2)) (Finite (1 / 3))
       2 1 0 =
     calculate_all_nodes_for_puts ''E'' 90 100 (Finite 2) (Finite (1 / 2)) (Finite (1 / 3)) 2 1 0 \<and>
   calculate_all_nodes_for_calls ''a'' 90 100 (Finite 2) (Finite (1 / 2)) NaN 2 1 0 =
     calculate_all_nodes_for_calls ''E'' 90 100 (Finite 2) (Finite (1 / 2)) NaN 2 1 0"
proof -
  have h1: "''American'' \<noteq> ''A''" by simp
  have h2: "''a'' \<noteq> ''A''" by simp
  show ?thesis
    using h1
      style_other_than_A [OF h1, of 90 100 "Finite 2" "Finite (1 / 2)" "Finite (1 / 3)" 2 1 0]
      style_other_than_A [OF h2, of 90 100 "Finite 2" "Finite (1 / 2)" NaN 2 1 0]
    by blast
qed

section \<open>European valuation\<close>

lemma european_inner:
  "style \<noteq> ''A'' \<Longrightarrow>
   value_back style payoff q r dt S0 u d n (Suc k) j =
     max (exp (- r * dt) * (q * value_back style payoff q r dt S0 u d n k (j + 1)
                            + (1 - q) * value_back style payoff q r dt S0 u d n k j)) 0"
  by (simp add: override_def)

lemma european_lattice:
  assumes "style \<noteq> ''A''" and pay: "\<And>x. payoff' (Finite x) = Finite (payoff x)"
  shows "(\<forall>j. 0 \<le> j \<and> j \<le> n \<longrightarrow>
            (\<exists>s. price_part S0 (Finite u) (Finite d) (max n 0) (max n 0) (n, j) = Some (Finite s) \<and>
               node_part (value_at style payoff' (Finite q) r dt S0 (Finite u) (Finite d) n)
                 n 0 0 (n, j) = Some (Finite (max (payoff s) 0)))) \<and>
         (\<forall>i j. 0 \<le> j \<and> j \<le> i \<and> i < n \<longrightarrow>
            (\<exists>a b.
               node_part (value_at style payoff' (Finite q) r dt S0 (Finite u) (Finite d) n)
                 n 0 0 (i + 1, j + 1) = Some (Finite a) \<and>
               node_part (value_at style payoff' (Finite q) r dt S0 (Finite u) (Finite d) n)
                 n 0 0 (i + 1, j) = Some (Finite b) \<and>
               node_part (value_at style payoff' (Finite q) r dt S0 (Finite u) (Finite d) n)
                 n 0 0 (i, j) = Some (Finite (max (exp (- r * dt) * (q * a + (1 - q) * b)) 0))))"
proof (intro conjI allI impI)
  fix j assume j: "0 \<le> j \<and> j \<le> n"
  then have "value_at style payoff' (Finite q) r dt S0 (Finite u) (Finite d) n n j =
      Finite (value_back style payoff q r dt S0 u d n (nat (n - n)) j)"
    by (intro value_at_Finite pay) auto
  then have v: "value_at style payoff' (Finite q) r dt S0 (Finite u) (Finite d) n n j =
      Finite (max (payoff (price_fn S0 u d n j)) 0)"
    using assms(1) by (simp add: override_def)
  have n: "max n 0 = n" using j by simp
  show "\<exists>s. price_part S0 (Finite u) (Finite d) (max n 0) (max n 0) (n, j) = Some (Finite s) \<and>
               node_part (value_at style payoff' (Finite q) r dt S0 (Finite u) (Finite d) n)
                 n 0 0 (n, j) = Some (Finite (max (payoff s) 0))"
    unfolding n using j v
    by (simp add: price_part_full node_part_full price_rec_Finite_int)
next
  fix i j assume ij: "0 \<le> j \<and> j \<le> i \<and> i < n"
  obtain k where k: "nat (n - i) = Suc k" using ij by (cases "nat (n - i)") auto
  then have k1: "nat (n - (i + 1)) = k" by simp
  have a: "value_at style payoff' (Finite q) r dt S0 (Finite u) (Finite d) n (i + 1) (j + 1) =
      Finite (value_back style payoff q r dt S0 u d n k (j + 1))"
    unfolding k1 [symmetric] using ij by (intro value_at_Finite pay) auto
  have b: "value_at style payoff' (Finite q) r dt S0 (Finite u) (Finite d) n (i + 1) j =
      Finite (value_back style payoff q r dt S0 u d n k j)"
    unfolding k1 [symmetric] using ij by (intro value_at_Finite pay) auto
  have c: "value_at style payoff' (Finite q) r dt S0 (Finite u) (Finite d) n i j =
      Finite (value_back style payoff q r dt S0 u d n (Suc k) j)"
    unfolding k [symmetric] using ij by (intro value_at_Finite pay) auto
  show "\<exists>a b.
               node_part (value_at style payoff' (Finite q) r dt S0 (Finite u) (Finite d) n)
                 n 0 0 (i + 1, j + 1) = Some (Finite a) \<and>
               node_part (value_at style payoff' (Finite q) r dt S0 (Finite u) (Finite d) n)
                 n 0 0 (i + 1, j) = Some (Finite b) \<and>
               node_part (value_at style payoff' (Finite q) r dt S0 (Finite u) (Finite d) n)
                 n 0 0 (i, j) = Some (Finite (max (exp (- r * dt) * (q * a + (1 - q) * b)) 0))"
    using ij a b c european_inner [OF assms(1)]
    by (simp add: node_part_full)
qed

text \<open>
  Claim C1. In every run whose style is not \<^verbatim>\<open>"A"\<close> (a European run), on real factors
  and probability, each pricing function returns, and its value lattice satisfies the
  backward induction: at the last step \<open>V[N,j] = max(payoff(S[N,j]), 0)\<close>, with payoff
  \<open>K - S\<close> for the put and \<open>S - K\<close> for the call, and at every node with \<open>0 \<le> j \<le> i < N\<close>,
  \<open>V[i,j] = max(exp(-r dt) (p V[i+1,j+1] + (1-p) V[i+1,j]), 0)\<close>; the immediate payoff does not
  enter the value of an inner node.
\<close>

theorem european_backward_induction:
  assumes "style \<noteq> ''A''"
  shows "(\<exists>S P E. calculate_all_nodes_for_puts style K S0 (Finite u) (Finite d) (Finite q)
                    steps dt r = Inr (S, P, E) \<and>
           (\<forall>j. 0 \<le> j \<and> j \<le> steps \<longrightarrow>
              (\<exists>s. S (steps, j) = Some (Finite s) \<and>
                 P (steps, j) = Some (Finite (max (K - s) 0)))) \<and>
           (\<forall>i j. 0 \<le> j \<and> j \<le> i \<and> i < steps \<longrightarrow>
              (\<exists>a b. P (i + 1, j + 1) = Some (Finite a) \<and> P (i + 1, j) = Some (Finite b) \<and>
                 P (i, j) = Some (Finite (max (exp (- r * dt) * (q * a + (1 - q) * b)) 0))))) \<and>
         (\<exists>S P E. calculate_all_nodes_for_calls style K S0 (Finite u) (Finite d) (Finite q)
                    steps dt r = Inr (S, P, E) \<and>
           (\<forall>j. 0 \<le> j \<and> j \<le> steps \<longrightarrow>
              (\<exists>s. S (steps, j) = Some (Finite s) \<and>
                 P (steps, j) = Some (Finite (max (s - K) 0)))) \<and>
           (\<forall>i j. 0 \<le> j \<and> j \<le> i \<and> i < steps \<longrightarrow>
              (\<exists>a b. P (i + 1, j + 1) = Some (Finite a) \<and> P (i + 1, j) = Some (Finite b) \<and>
                 P (i, j) = Some (Finite (max (exp (- r * dt) * (q * a + (1 - q) * b)) 0)))))"
proof -
  have 1: "np_sub (Finite K) (Finite x) = Finite (K - x)" for x by simp
  have 2: "np_sub (Finite x) (Finite K) = Finite (x - K)" for x by simp
  show ?thesis
    unfolding calculate_all_nodes_for_puts_eq calculate_all_nodes_for_calls_eq
    using european_lattice [OF assms, of "\<lambda>s. np_sub (Finite K) s" "\<lambda>s. K - s", OF 1,
        of steps S0 u d q r dt]
      european_lattice [OF assms, of "\<lambda>s. np_sub s (Finite K)" "\<lambda>s. s - K", OF 2,
        of steps S0 u d q r dt]
    by blast
qed

text \<open>
  One step from 100 with strike 100, \<open>u = 2\<close>, \<open>d = 1/2\<close>, \<open>p = 1/2\<close> and no interest: the put is
  worth 0 and 50 at the last step and 25 at the root.
\<close>

theorem european_backward_induction_witness:
  "''E'' \<noteq> ''A'' \<and>
   (\<exists>S P E. calculate_all_nodes_for_puts ''E'' 100 100 (Finite 2) (Finite (1 / 2))
               (Finite (1 / 2)) 1 1 0 = Inr (S, P, E) \<and>
      P (1, 1) = Some (Finite 0) \<and> P (1, 0) = Some (Finite 50) \<and> P (0, 0) = Some (Finite 25))"
proof -
  have h: "''E'' \<noteq> ''A''" by simp
  from european_backward_induction [OF h, of 100 100 2 "1 / 2" "1 / 2" 1 1 0]
  obtain S P E where
    c: "calculate_all_nodes_for_puts ''E'' 100 100 (Finite 2) (Finite (1 / 2)) (Finite (1 / 2))
          1 1 0 = Inr (S, P, E)"
    and last: "\<forall>j. 0 \<le> j \<and> j \<le> 1 \<longrightarrow>
              (\<exists>s. S (1, j) = Some (Finite s) \<and> P (1, j) = Some (Finite (max (100 - s) 0)))"
    and inner: "\<forall>i j. 0 \<le> j \<and> j \<le> i \<and> i < 1 \<longrightarrow>
              (\<exists>a b. P (i + 1, j + 1) = Some (Finite a) \<and> P (i + 1, j) = Some (Finite b) \<and>
                 P (i, j) =
                   Some (Finite (max (exp (- 0 * 1) * (1 / 2 * a + (1 - 1 / 2) * b)) 0)))"
    by blast
  have S: "S = price_part 100 (Finite 2) (Finite (1 / 2)) 1 1"
    using c by (simp add: calculate_all_nodes_for_puts_eq)
  have "S (1, 1) = Some (Finite 200)" "S (1, 0) = Some (Finite 50)"
    unfolding S by (simp_all add: price_part_full price_rec_Finite_int price_fn_def)
  then have p1: "P (1, 1) = Some (Finite 0)" and p0: "P (1, 0) = Some (Finite 50)"
    using last [rule_format, of 1] last [rule_format, of 0] by auto
  have "P (0, 0) = Some (Finite 25)"
    using inner [rule_format, of 0 0] p1 p0 by simp
  then show ?thesis using h c p1 p0 by blast
qed

section \<open>Order relations between runs\<close>

lemma put_value_node:
  assumes "0 \<le> j" "j \<le> i" "i \<le> n"
  shows "node_part (value_at style (\<lambda>s. np_sub (Finite K) s) (Finite q) r dt S0
                      (Finite u) (Finite d) n) n 0 0 (i, j) =
         Some (Finite (value_back style (\<lambda>s. K - s) q r dt S0 u d n (nat (n - i)) j))"
proof -
  have "value_at style (\<lambda>s. np_sub (Finite K) s) (Finite q) r dt S0 (Finite u) (Finite d) n i j =
      Finite (value_back style (\<lambda>s. K - s) q r dt S0 u d n (nat (n - i)) j)"
    using assms by (intro value_at_Finite) auto
  then show ?thesis using assms by (simp add: node_part_full)
qed

lemma call_value_node:
  assumes "0 \<le> j" "j \<le> i" "i \<le> n"
  shows "node_part (value_at style (\<lambda>s. np_sub s (Finite K)) (Finite q) r dt S0
                      (Finite u) (Finite d) n) n 0 0 (i, j) =
         Some (Finite (value_back style (\<lambda>s. s - K) q r dt S0 u d n (nat (n - i)) j))"
proof -
  have "value_at style (\<lambda>s. np_sub s (Finite K)) (Finite q) r dt S0 (Finite u) (Finite d) n i j =
      Finite (value_back style (\<lambda>s. s - K) q r dt S0 u d n (nat (n - i)) j)"
    using assms by (intro value_at_Finite) auto
  then show ?thesis using assms by (simp add: node_part_full)
qed

text \<open>
  Claim C7. For every parameter set with the risk-neutral probability in \<open>[0, 1]\<close>, for the
  put and for the call, the run with the style \<^verbatim>\<open>"A"\<close> stores at every node a value
  greater than or equal to the value of the same node in a European run (any other style
  string) with the same parameters.
\<close>

theorem american_ge_european:
  assumes "0 \<le> q" "q \<le> 1" "style \<noteq> ''A''"
  shows "(\<exists>S PA EA PE EE.
            calculate_all_nodes_for_puts ''A'' K S0 (Finite u) (Finite d) (Finite q) steps dt r =
              Inr (S, PA, EA) \<and>
            calculate_all_nodes_for_puts style K S0 (Finite u) (Finite d) (Finite q) steps dt r =
              Inr (S, PE, EE) \<and>
            (\<forall>i j. 0 \<le> j \<and> j \<le> i \<and> i \<le> steps \<longrightarrow>
               (\<exists>a e. PA (i, j) = Some (Finite a) \<and> PE (i, j) = Some (Finite e) \<and> e \<le> a))) \<and>
         (\<exists>S PA EA PE EE.
            calculate_all_nodes_for_calls ''A'' K S0 (Finite u) (Finite d) (Finite q) steps dt r =
              Inr (S, PA, EA) \<and>
            calculate_all_nodes_for_calls style K S0 (Finite u) (Finite d) (Finite q) steps dt r =
              Inr (S, PE, EE) \<and>
            (\<forall>i j. 0 \<le> j \<and> j \<le> i \<and> i \<le> steps \<longrightarrow>
               (\<exists>a e. PA (i, j) = Some (Finite a) \<and> PE (i, j) = Some (Finite e) \<and> e \<le> a)))"
  using assms(1,2)
  by (simp add: calculate_all_nodes_for_puts_eq calculate_all_nodes_for_calls_eq
      put_value_node call_value_node value_back_le_american)

text \<open>A put with strike 300 on a spot of 100, one step.\<close>

theorem american_ge_european_witness:
  "(0::real) \<le> 1 / 2 \<and> (1 / 2 :: real) \<le> 1 \<and> ''E'' \<noteq> ''A'' \<and>
   (\<exists>S PA EA PE EE.
      calculate_all_nodes_for_puts ''A'' 300 100 (Finite 2) (Finite (1 / 2)) (Finite (1 / 2))
        1 1 0 = Inr (S, PA, EA) \<and>
      calculate_all_nodes_for_puts ''E'' 300 100 (Finite 2) (Finite (1 / 2)) (Finite (1 / 2))
        1 1 0 = Inr (S, PE, EE) \<and>
      (\<exists>a e. PA (0, 0) = Some (Finite a) \<and> PE (0, 0) = Some (Finite e) \<and> e \<le> a))"
proof -
  have h1: "(0::real) \<le> 1 / 2" and h2: "(1 / 2 :: real) \<le> 1" and h3: "''E'' \<noteq> ''A''"
    by simp_all
  from american_ge_european [OF h1 h2 h3, of 300 100 2 "1 / 2" 1 1 0]
  obtain S PA EA PE EE where
    "calculate_all_nodes_for_puts ''A'' 300 100 (Finite 2) (Finite (1 / 2)) (Finite (1 / 2))
       1 1 0 = Inr (S, PA, EA)"
    "calculate_all_nodes_for_puts ''E'' 300 100 (Finite 2) (Finite (1 / 2)) (Finite (1 / 2))
       1 1 0 = Inr (S, PE, EE)"
    "\<forall>i j. 0 \<le> j \<and> j \<le> i \<and> i \<le> 1 \<longrightarrow>
       (\<exists>a e. PA (i, j) = Some (Finite a) \<and> PE (i, j) = Some (Finite e) \<and> e \<le> a)"
    by blast
  moreover from this(3)
  have "\<exists>a e. PA (0, 0) = Some (Finite a) \<and> PE (0, 0) = Some (Finite e) \<and> e \<le> a"
    by simp
  ultimately show ?thesis using h1 h2 h3 by blast
qed

text \<open>
  Claim C8. For two parameter sets that differ in the strike only, \<open>K1 \<le> K2\<close>, with the
  risk-neutral probability in \<open>[0, 1]\<close> and for either style, the put value at every node
  under \<open>K2\<close> is at least the put value under \<open>K1\<close>, and the call value at every node under
  \<open>K2\<close> is at most the call value under \<open>K1\<close>.
\<close>

theorem strike_monotone:
  assumes "0 \<le> q" "q \<le> 1" "K1 \<le> K2"
  shows "(\<exists>S P1 E1 P2 E2.
            calculate_all_nodes_for_puts style K1 S0 (Finite u) (Finite d) (Finite q) steps dt r =
              Inr (S, P1, E1) \<and>
            calculate_all_nodes_for_puts style K2 S0 (Finite u) (Finite d) (Finite q) steps dt r =
              Inr (S, P2, E2) \<and>
            (\<forall>i j. 0 \<le> j \<and> j \<le> i \<and> i \<le> steps \<longrightarrow>
               (\<exists>v1 v2. P1 (i, j) = Some (Finite v1) \<and> P2 (i, j) = Some (Finite v2) \<and>
                  v1 \<le> v2))) \<and>
         (\<exists>S P1 E1 P2 E2.
            calculate_all_nodes_for_calls style K1 S0 (Finite u) (Finite d) (Finite q) steps dt r =
              Inr (S, P1, E1) \<and>
            calculate_all_nodes_for_calls style K2 S0 (Finite u) (Finite d) (Finite q) steps dt r =
              Inr (S, P2, E2) \<and>
            (\<forall>i j. 0 \<le> j \<and> j \<le> i \<and> i \<le> steps \<longrightarrow>
               (\<exists>v1 v2. P1 (i, j) = Some (Finite v1) \<and> P2 (i, j) = Some (Finite v2) \<and>
                  v2 \<le> v1)))"
proof -
  have "value_back style (\<lambda>s. K1 - s) q r dt S0 u d steps k j \<le>
        value_back style (\<lambda>s. K2 - s) q r dt S0 u d steps k j" for k j
    using assms by (intro value_back_mono_payoff) auto
  moreover have "value_back style (\<lambda>s. s - K2) q r dt S0 u d steps k j \<le>
        value_back style (\<lambda>s. s - K1) q r dt S0 u d steps k j" for k j
    using assms by (intro value_back_mono_payoff) auto
  ultimately show ?thesis
    by (simp add: calculate_all_nodes_for_puts_eq calculate_all_nodes_for_calls_eq
      put_value_node call_value_node)
qed

text \<open>Strikes 90 and 110 on a spot of 100, two steps, American style.\<close>

theorem strike_monotone_witness:
  "(0::real) \<le> 1 / 2 \<and> (1 / 2 :: real) \<le> 1 \<and> (90::real) \<le> 110 \<and>
   (\<exists>S P1 E1 P2 E2.
      calculate_all_nodes_for_puts ''A'' 90 100 (Finite 2) (Finite (1 / 2)) (Finite (1 / 2))
        2 1 0 = Inr (S, P1, E1) \<and>
      calculate_all_nodes_for_puts ''A'' 110 100 (Finite 2) (Finite (1 / 2)) (Finite (1 / 2))
        2 1 0 = Inr (S, P2, E2) \<and>
      (\<exists>v1 v2. P1 (1, 0) = Some (Finite v1) \<and> P2 (1, 0) = Some (Finite v2) \<and> v1 \<le> v2)) \<and>
   (\<exists>S P1 E1 P2 E2.
      calculate_all_nodes_for_calls ''A'' 90 100 (Finite 2) (Finite (1 / 2)) (Finite (1 / 2))
        2 1 0 = Inr (S, P1, E1) \<and>
      calculate_all_nodes_for_calls ''A'' 110 100 (Finite 2) (Finite (1 / 2)) (Finite (1 / 2))
        2 1 0 = Inr (S, P2, E2) \<and>
      (\<exists>v1 v2. P1 (1, 0) = Some (Finite v1) \<and> P2 (1, 0) = Some (Finite v2) \<and> v2 \<le> v1))"
proof -
  have h1: "(0::real) \<le> 1 / 2" and h2: "(1 / 2 :: real) \<le> 1" and h3: "(90::real) \<le> 110"
    by simp_all
  note t = strike_monotone [OF h1 h2 h3, of "''A''" 100 2 "1 / 2" 2 1 0]
  from t obtain S P1 E1 P2 E2 where
    "calculate_all_nodes_for_puts ''A'' 90 100 (Finite 2) (Finite (1 / 2)) (Finite (1 / 2))
       2 1 0 = Inr (S, P1, E1)"
    "calculate_all_nodes_for_puts ''A'' 110 100 (Finite 2) (Finite (1 / 2)) (Finite (1 / 2))
       2 1 0 = Inr (S, P2, E2)"
    "\<forall>i j. 0 \<le> j \<and> j \<le> i \<and> i \<le> 2 \<longrightarrow>
       (\<exists>v1 v2. P1 (i, j) = Some (Finite v1) \<and> P2 (i, j) = Some (Finite v2) \<and> v1 \<le> v2)"
    by blast
  moreover from this(3)
  have "\<exists>v1 v2. P1 (1, 0) = Some (Finite v1) \<and> P2 (1, 0) = Some (Finite v2) \<and> v1 \<le> v2"
    by simp
  ultimately have p: "\<exists>S P1 E1 P2 E2.
      calculate_all_nodes_for_puts ''A'' 90 100 (Finite 2) (Finite (1 / 2)) (Finite (1 / 2))
        2 1 0 = Inr (S, P1, E1) \<and>
      calculate_all_nodes_for_puts ''A'' 110 100 (Finite 2) (Finite (1 / 2)) (Finite (1 / 2))
        2 1 0 = Inr (S, P2, E2) \<and>
      (\<exists>v1 v2. P1 (1, 0) = Some (Finite v1) \<and> P2 (1, 0) = Some (Finite v2) \<and> v1 \<le> v2)"
    by blast
  from t obtain S P1 E1 P2 E2 where
    "calculate_all_nodes_for_calls ''A'' 90 100 (Finite 2) (Finite (1 / 2)) (Finite (1 / 2))
       2 1 0 = Inr (S, P1, E1)"
    "calculate_all_nodes_for_calls ''A'' 110 100 (Finite 2) (Finite (1 / 2)) (Finite (1 / 2))
       2 1 0 = Inr (S, P2, E2)"
    "\<forall>i j. 0 \<le> j \<and> j \<le> i \<and> i \<le> 2 \<longrightarrow>
       (\<exists>v1 v2. P1 (i, j) = Some (Finite v1) \<and> P2 (i, j) = Some (Finite v2) \<and> v2 \<le> v1)"
    by blast
  moreover from this(3)
  have "\<exists>v1 v2. P1 (1, 0) = Some (Finite v1) \<and> P2 (1, 0) = Some (Finite v2) \<and> v2 \<le> v1"
    by simp
  ultimately have c: "\<exists>S P1 E1 P2 E2.
      calculate_all_nodes_for_calls ''A'' 90 100 (Finite 2) (Finite (1 / 2)) (Finite (1 / 2))
        2 1 0 = Inr (S, P1, E1) \<and>
      calculate_all_nodes_for_calls ''A'' 110 100 (Finite 2) (Finite (1 / 2)) (Finite (1 / 2))
        2 1 0 = Inr (S, P2, E2) \<and>
      (\<exists>v1 v2. P1 (1, 0) = Some (Finite v1) \<and> P2 (1, 0) = Some (Finite v2) \<and> v2 \<le> v1)"
    by blast
  show ?thesis using h1 h2 h3 p c by blast
qed

section \<open>Put-call parity\<close>

lemma init_returns:
  assumes "\<not> int_too_large steps" "steps \<noteq> 0" "0 \<le> T / real_of_int steps"
  shows "BinomialTree_init steps T K S0 sigma r y style =
     Inr \<lparr> self_steps = steps,
           self_delta_time = T / real_of_int steps,
           self_strike = K,
           self_current_price = S0,
           self_volatility = sigma,
           self_interest_rate = r,
           self_american_or_european = style,
           self_up = Finite (exp (sigma * sqrt (T / real_of_int steps))),
           self_down = Finite (exp (- sigma * sqrt (T / real_of_int steps))),
           self_risk_neutral_probability =
             np_divide
               (Finite (exp ((r - y) * (T / real_of_int steps))
                        - exp (- sigma * sqrt (T / real_of_int steps))))
               (Finite (exp (sigma * sqrt (T / real_of_int steps))
                        - exp (- sigma * sqrt (T / real_of_int steps)))) \<rparr>"
  using assms
  by (simp add: BinomialTree_init_def up_down_def risk_neutral_probability_def Let_def)

lemma init_Inr_not_too_large:
  "BinomialTree_init steps T K S0 sigma r y style = Inr self \<Longrightarrow> \<not> int_too_large steps"
  by (auto simp: BinomialTree_init_def)

lemma small_int_converts: "\<bar>n\<bar> \<le> 1000000 \<Longrightarrow> \<not> int_too_large n"
proof -
  assume n: "\<bar>n\<bar> \<le> 1000000"
  have "(2::int) ^ 970 * 2 \<le> 2 ^ 970 * 2 ^ 54" by (intro mult_left_mono) auto
  then have "(2::int) * 2 ^ 970 \<le> 2 ^ 1024" by (simp add: power_add [symmetric])
  moreover have "(1000000::int) < 2 ^ 970"
  proof -
    have "(1000000::int) < 2 ^ 20" by simp
    also have "(2::int) ^ 20 \<le> 2 ^ 970" by (intro power_increasing) auto
    finally show ?thesis .
  qed
  ultimately show ?thesis using n unfolding int_too_large_def by linarith
qed

text \<open>
  Claim C6. For every European parameter set (style other than \<^verbatim>\<open>"A"\<close>, \<open>N \<ge> 1\<close>, \<open>T > 0\<close>)
  whose risk-neutral probability, as the constructor computes it, is a number \<open>p\<close> in
  \<open>[0, 1]\<close>, \<^verbatim>\<open>run\<close> returns, and the root values satisfy
  \<open>Call(0,0) - Put(0,0) = S0 exp(-q T) - K exp(-r T)\<close>, exactly over the real numbers. The
  dividend yield \<open>q\<close> of the claim is \<open>y\<close> here.
\<close>

theorem put_call_parity:
  assumes "1 \<le> steps" "0 < T"
    and "BinomialTree_init steps T K S0 sigma r y style = Inr self"
    and "self_risk_neutral_probability self = Finite p" "0 \<le> p" "p \<le> 1"
    and "style \<noteq> ''A''"
  shows "\<exists>res c pv. run self = Inr res \<and>
           call_P res (0, 0) = Some (Finite c) \<and> put_P res (0, 0) = Some (Finite pv) \<and>
           c - pv = S0 * exp (- y * T) - K * exp (- r * T)"
proof -
  let ?dt = "T / real_of_int steps"
  let ?u = "exp (sigma * sqrt ?dt)"
  let ?d = "exp (- sigma * sqrt ?dt)"
  have n0: "steps \<noteq> 0" and dt: "0 \<le> ?dt" using assms(1,2) by auto
  have small: "\<not> int_too_large steps" using assms(3) by (rule init_Inr_not_too_large)
  note self = assms(3) [unfolded init_returns [OF small n0 dt], simplified, symmetric]
  have q: "np_divide (Finite (exp ((r - y) * ?dt) - ?d)) (Finite (?u - ?d)) = Finite p"
    using assms(4) unfolding self by simp
  have m: "p * ?u + (1 - p) * ?d = exp ((r - y) * ?dt)"
    using np_divide_Finite [OF q] by (intro martingale) auto
  have k: "real (nat steps) = real_of_int steps" using assms(1) by simp
  have T: "?dt * real_of_int steps = T" using n0 by simp
  have "- y * ?dt * real (nat steps) = - y * (?dt * real_of_int steps)"
    unfolding k by (simp only: mult.assoc)
  then have ey: "exp (- y * ?dt * real (nat steps)) = exp (- y * T)"
    by (simp only: T)
  have "- r * ?dt * real (nat steps) = - r * (?dt * real_of_int steps)"
    unfolding k by (simp only: mult.assoc)
  then have er: "exp (- r * ?dt * real (nat steps)) = exp (- r * T)"
    by (simp only: T)
  have par: "value_back style (\<lambda>s. s - K) p r ?dt S0 ?u ?d steps (nat steps) 0
           - value_back style (\<lambda>s. K - s) p r ?dt S0 ?u ?d steps (nat steps) 0 =
         S0 * exp (- y * T) - K * exp (- r * T)"
    using parity_back [OF assms(7,5,6) m, of 0 steps "nat steps" K S0] assms(1)
    unfolding ey er by (simp add: price_fn_def)
  have fields: "self_up self = Finite ?u" "self_down self = Finite ?d"
    "self_risk_neutral_probability self = Finite p" "self_steps self = steps"
    "self_strike self = K" "self_current_price self = S0" "self_interest_rate self = r"
    "self_delta_time self = ?dt" "self_american_or_european self = style"
    using q unfolding self by simp_all
  have c: "call_P (projr (run self)) (0, 0) =
      Some (Finite (value_back style (\<lambda>s. s - K) p r ?dt S0 ?u ?d steps (nat steps) 0))"
    unfolding run_eq fields using assms(1) call_value_node [of 0 0 steps style K p r ?dt S0 ?u ?d]
    by simp
  have pv: "put_P (projr (run self)) (0, 0) =
      Some (Finite (value_back style (\<lambda>s. K - s) p r ?dt S0 ?u ?d steps (nat steps) 0))"
    unfolding run_eq fields using assms(1) put_value_node [of 0 0 steps style K p r ?dt S0 ?u ?d]
    by simp
  have "run self = Inr (projr (run self))" unfolding run_eq by simp
  then show ?thesis using c pv par by blast
qed

text \<open>
  One step, one year, volatility 1, no interest and no dividend, strike 90 on a spot of
  100: the call is worth 10 more than the put.
\<close>

theorem put_call_parity_witness:
  "\<exists>self res c pv. BinomialTree_init 1 1 90 100 1 0 0 ''E'' = Inr self \<and>
     run self = Inr res \<and>
     call_P res (0, 0) = Some (Finite c) \<and> put_P res (0, 0) = Some (Finite pv) \<and> c - pv = 10"
proof -
  let ?p = "(1 - exp (- 1)) / (exp 1 - exp (- 1)) :: real"
  let ?self = "\<lparr> self_steps = 1, self_delta_time = 1, self_strike = 90,
      self_current_price = 100, self_volatility = 1, self_interest_rate = 0,
      self_american_or_european = ''E'', self_up = Finite (exp 1),
      self_down = Finite (exp (- 1)), self_risk_neutral_probability = Finite ?p \<rparr>"
  have h1: "(1::int) \<le> 1" and h2: "(0::real) < 1" and h7: "''E'' \<noteq> ''A''" by simp_all
  have small: "\<not> int_too_large 1" by (rule small_int_converts) simp
  have h3: "BinomialTree_init 1 1 90 100 1 0 0 ''E'' = Inr ?self"
    using init_returns [OF small, of 1 90 100 1 0 0 "''E''"] by simp
  have h4: "self_risk_neutral_probability ?self = Finite ?p" by simp
  have num: "0 < 1 - exp (- 1 :: real)" by simp
  have den: "0 < exp 1 - exp (- 1 :: real)" by simp
  have h5: "0 \<le> ?p" using num den by simp
  have "1 - exp (- 1 :: real) \<le> exp 1 - exp (- 1)" by simp
  then have h6: "?p \<le> 1" using den by simp
  from put_call_parity [OF h1 h2 h3 h4 h5 h6 h7]
  obtain res c pv where "run ?self = Inr res"
    "call_P res (0, 0) = Some (Finite c)" "put_P res (0, 0) = Some (Finite pv)" "c - pv = 10"
    by auto
  with h3 show ?thesis by blast
qed

section \<open>Values below zero and NaN\<close>

lemma not_below_floor: "\<not> np_gt (Finite 0) (py_max x (Finite 0))"
  by (cases x) (auto simp: py_max_def)

lemma not_below_override:
  "\<not> np_gt (Finite 0) v \<Longrightarrow> \<not> np_gt (Finite 0) (py_override style v x)"
  by (cases v; cases x) (auto simp: py_override_def py_max_def)

lemma value_at_not_below:
  assumes "i \<le> n"
  shows "\<not> np_gt (Finite 0) (value_at style payoff q r dt S0 up down n i j)"
proof -
  have "\<not> np_gt (Finite 0) (floored_at style payoff q r dt S0 up down n i j)"
    by (simp add: floored_at_def not_below_floor)
  then show ?thesis unfolding value_at_unfold [OF assms] by (rule not_below_override)
qed

lemma stored_not_below:
  "node_part (value_at style payoff q r dt S0 up down n) n 0 0 (i, j) = Some v \<Longrightarrow>
   \<not> np_gt (Finite 0) v"
  using value_at_not_below [of i n style payoff q r dt S0 up down j]
  by (auto simp: node_part_full split: if_splits)

lemma stored_put_nonneg:
  assumes "node_part (value_at style (\<lambda>s. np_sub (Finite K) s) (Finite q) r dt S0
                        (Finite u) (Finite d) n) n 0 0 (i, j) = Some v"
  shows "\<exists>x. v = Finite x \<and> 0 \<le> x"
proof -
  from assms have t: "0 \<le> j" "j \<le> i" "i \<le> n"
    by (auto simp: node_part_full split: if_splits)
  show ?thesis using assms unfolding put_value_node [OF t] by (auto simp: value_back_nonneg)
qed

lemma stored_call_nonneg:
  assumes "node_part (value_at style (\<lambda>s. np_sub s (Finite K)) (Finite q) r dt S0
                        (Finite u) (Finite d) n) n 0 0 (i, j) = Some v"
  shows "\<exists>x. v = Finite x \<and> 0 \<le> x"
proof -
  from assms have t: "0 \<le> j" "j \<le> i" "i \<le> n"
    by (auto simp: node_part_full split: if_splits)
  show ?thesis using assms unfolding call_value_node [OF t] by (auto simp: value_back_nonneg)
qed

text \<open>
  Claim C9 says that every stored value is at least 0 in every pricing run. With zero
  volatility the constructor stores NaN as the risk-neutral probability, \<^verbatim>\<open>run\<close> goes on
  without an exception, and the root values of the put and of the call are NaN:
  \<^verbatim>\<open>max(nan, 0)\<close> keeps the NaN.
\<close>

theorem value_nonneg_counterexample:
  "BinomialTree_init 1 1 100 100 0 0 0 ''E'' =
     Inr \<lparr> self_steps = 1, self_delta_time = 1, self_strike = 100, self_current_price = 100,
           self_volatility = 0, self_interest_rate = 0, self_american_or_european = ''E'',
           self_up = Finite 1, self_down = Finite 1, self_risk_neutral_probability = NaN \<rparr> \<and>
   \<not> isl (run \<lparr> self_steps = 1, self_delta_time = 1, self_strike = 100,
           self_current_price = 100,
           self_volatility = 0, self_interest_rate = 0, self_american_or_european = ''E'',
           self_up = Finite 1, self_down = Finite 1, self_risk_neutral_probability = NaN \<rparr>) \<and>
   put_P (projr (run \<lparr> self_steps = 1, self_delta_time = 1, self_strike = 100,
           self_current_price = 100,
           self_volatility = 0, self_interest_rate = 0, self_american_or_european = ''E'',
           self_up = Finite 1, self_down = Finite 1, self_risk_neutral_probability = NaN \<rparr>))
     (0, 0) = Some NaN \<and>
   call_P (projr (run \<lparr> self_steps = 1, self_delta_time = 1, self_strike = 100,
           self_current_price = 100,
           self_volatility = 0, self_interest_rate = 0, self_american_or_european = ''E'',
           self_up = Finite 1, self_down = Finite 1, self_risk_neutral_probability = NaN \<rparr>))
     (0, 0) = Some NaN"
proof -
  have small: "\<not> int_too_large 1" by (rule small_int_converts) simp
  have "nat 1 = Suc 0" by simp
  then show ?thesis
    using small
    by (simp add: BinomialTree_init_def up_down_def risk_neutral_probability_def run_eq
        node_part_full value_at_def py_override_def py_max_def)
qed

text \<open>
  Claim C9 as amended. In every pricing run on real up and down factors and a real
  risk-neutral probability, for the put and for the call and whatever the style, every
  node \<open>(i, j)\<close> with \<open>0 \<le> j \<le> i \<le> N\<close> has a value and every stored value is a number that is at
  least 0. In a run on any floats, no stored value is below 0: it is at least 0 or NaN.
\<close>

theorem value_nonneg:
  "(\<exists>S P E. calculate_all_nodes_for_puts style K S0 up down q steps dt r = Inr (S, P, E) \<and>
      (\<forall>i j. 0 \<le> j \<and> j \<le> i \<and> i \<le> steps \<longrightarrow> (\<exists>v. P (i, j) = Some v)) \<and>
      (\<forall>i j v. P (i, j) = Some v \<longrightarrow>
         \<not> np_gt (Finite 0) v \<and>
         (\<forall>u d p. up = Finite u \<and> down = Finite d \<and> q = Finite p \<longrightarrow>
            (\<exists>x. v = Finite x \<and> 0 \<le> x)))) \<and>
   (\<exists>S P E. calculate_all_nodes_for_calls style K S0 up down q steps dt r = Inr (S, P, E) \<and>
      (\<forall>i j. 0 \<le> j \<and> j \<le> i \<and> i \<le> steps \<longrightarrow> (\<exists>v. P (i, j) = Some v)) \<and>
      (\<forall>i j v. P (i, j) = Some v \<longrightarrow>
         \<not> np_gt (Finite 0) v \<and>
         (\<forall>u d p. up = Finite u \<and> down = Finite d \<and> q = Finite p \<longrightarrow>
            (\<exists>x. v = Finite x \<and> 0 \<le> x))))"
proof (intro conjI)
  let ?P = "node_part (value_at style (\<lambda>s. np_sub (Finite K) s) q r dt S0 up down steps)
              steps 0 0"
  have "\<forall>i j. 0 \<le> j \<and> j \<le> i \<and> i \<le> steps \<longrightarrow> (\<exists>v. ?P (i, j) = Some v)"
    by (simp add: node_part_full)
  moreover have "\<forall>i j v. ?P (i, j) = Some v \<longrightarrow>
         \<not> np_gt (Finite 0) v \<and>
         (\<forall>u d p. up = Finite u \<and> down = Finite d \<and> q = Finite p \<longrightarrow>
            (\<exists>x. v = Finite x \<and> 0 \<le> x))"
  proof (intro allI impI conjI)
    fix i j v assume "?P (i, j) = Some v"
    then show "\<not> np_gt (Finite 0) v" by (rule stored_not_below)
  next
    fix i j v u d p
    assume a: "?P (i, j) = Some v"
      and f: "up = Finite u \<and> down = Finite d \<and> q = Finite p"
    from a f have "node_part (value_at style (\<lambda>s. np_sub (Finite K) s) (Finite p) r dt S0
                      (Finite u) (Finite d) steps) steps 0 0 (i, j) = Some v"
      by simp
    then show "\<exists>x. v = Finite x \<and> 0 \<le> x" by (rule stored_put_nonneg)
  qed
  ultimately show "\<exists>S P E.
      calculate_all_nodes_for_puts style K S0 up down q steps dt r = Inr (S, P, E) \<and>
      (\<forall>i j. 0 \<le> j \<and> j \<le> i \<and> i \<le> steps \<longrightarrow> (\<exists>v. P (i, j) = Some v)) \<and>
      (\<forall>i j v. P (i, j) = Some v \<longrightarrow>
         \<not> np_gt (Finite 0) v \<and>
         (\<forall>u d p. up = Finite u \<and> down = Finite d \<and> q = Finite p \<longrightarrow>
            (\<exists>x. v = Finite x \<and> 0 \<le> x)))"
    unfolding calculate_all_nodes_for_puts_eq by blast
next
  let ?P = "node_part (value_at style (\<lambda>s. np_sub s (Finite K)) q r dt S0 up down steps)
              steps 0 0"
  have "\<forall>i j. 0 \<le> j \<and> j \<le> i \<and> i \<le> steps \<longrightarrow> (\<exists>v. ?P (i, j) = Some v)"
    by (simp add: node_part_full)
  moreover have "\<forall>i j v. ?P (i, j) = Some v \<longrightarrow>
         \<not> np_gt (Finite 0) v \<and>
         (\<forall>u d p. up = Finite u \<and> down = Finite d \<and> q = Finite p \<longrightarrow>
            (\<exists>x. v = Finite x \<and> 0 \<le> x))"
  proof (intro allI impI conjI)
    fix i j v assume "?P (i, j) = Some v"
    then show "\<not> np_gt (Finite 0) v" by (rule stored_not_below)
  next
    fix i j v u d p
    assume a: "?P (i, j) = Some v"
      and f: "up = Finite u \<and> down = Finite d \<and> q = Finite p"
    from a f have "node_part (value_at style (\<lambda>s. np_sub s (Finite K)) (Finite p) r dt S0
                      (Finite u) (Finite d) steps) steps 0 0 (i, j) = Some v"
      by simp
    then show "\<exists>x. v = Finite x \<and> 0 \<le> x" by (rule stored_call_nonneg)
  qed
  ultimately show "\<exists>S P E.
      calculate_all_nodes_for_calls style K S0 up down q steps dt r = Inr (S, P, E) \<and>
      (\<forall>i j. 0 \<le> j \<and> j \<le> i \<and> i \<le> steps \<longrightarrow> (\<exists>v. P (i, j) = Some v)) \<and>
      (\<forall>i j v. P (i, j) = Some v \<longrightarrow>
         \<not> np_gt (Finite 0) v \<and>
         (\<forall>u d p. up = Finite u \<and> down = Finite d \<and> q = Finite p \<longrightarrow>
            (\<exists>x. v = Finite x \<and> 0 \<le> x)))"
    unfolding calculate_all_nodes_for_calls_eq by blast
qed

text \<open>
  One step with \<open>q = 2\<close>, outside \<open>[0, 1]\<close>, where the discounted expectation at the
  root is negative before the floor.
\<close>

theorem value_nonneg_witness:
  "\<exists>S P E x. calculate_all_nodes_for_puts ''A'' 100 100 (Finite 2) (Finite (1 / 2)) (Finite 2)
                1 1 0 = Inr (S, P, E) \<and>
     P (0, 0) = Some (Finite x) \<and> 0 \<le> x"
proof -
  from value_nonneg [of "''A''" 100 100 "Finite 2" "Finite (1 / 2)" "Finite 2" 1 1 0]
  obtain S P E where
    c: "calculate_all_nodes_for_puts ''A'' 100 100 (Finite 2) (Finite (1 / 2)) (Finite 2)
          1 1 0 = Inr (S, P, E)"
    and dm: "\<forall>i j. 0 \<le> j \<and> j \<le> i \<and> i \<le> 1 \<longrightarrow> (\<exists>v. P (i, j) = Some v)"
    and nn: "\<forall>i j v. P (i, j) = Some v \<longrightarrow>
         \<not> np_gt (Finite 0) v \<and>
         (\<forall>u d p. Finite 2 = Finite u \<and> Finite (1 / 2) = Finite d \<and> Finite 2 = Finite p \<longrightarrow>
            (\<exists>x. v = Finite x \<and> 0 \<le> x))"
    by blast
  from dm [rule_format, of 0 0] obtain v where v: "P (0, 0) = Some v" by auto
  with nn have "\<exists>x. v = Finite x \<and> 0 \<le> x" by blast
  with c v show ?thesis by blast
qed

section \<open>The exercise flag\<close>







section \<open>What the constructor raises\<close>






text \<open>
  Claim C4 says that a construction with \<open>N < 1\<close>, \<open>T \<le> 0\<close> or \<open>S0 \<le> 0\<close> raises an
  \<^verbatim>\<open>InvalidParameterError\<close>. The source checks no parameter: a negative spot price, a
  negative maturity and a negative step count each give an object and no exception, and
  the step count 0 raises the \<^verbatim>\<open>ZeroDivisionError\<close> of \<^verbatim>\<open>time_to_maturity / steps\<close>.
\<close>

theorem no_validation_counterexample:
  "\<not> isl (BinomialTree_init 1 1 100 (- 5) (1 / 5) 0 0 ''E'') \<and>
   \<not> isl (BinomialTree_init 1 (- 1) 100 100 (1 / 5) 0 0 ''E'') \<and>
   \<not> isl (BinomialTree_init (- 2) 1 100 100 (1 / 5) 0 0 ''E'') \<and>
   BinomialTree_init 0 1 100 100 (1 / 5) 0 0 ''E'' = Inl ZeroDivisionError"
proof -
  have "\<not> int_too_large 1" "\<not> int_too_large (- 2)" "\<not> int_too_large 0"
    by (rule small_int_converts, simp)+
  then show ?thesis
    by (simp add: BinomialTree_init_def up_down_def Let_def)
qed

text \<open>
  Claim C4 as amended. The constructor checks no parameter. It raises
  \<^verbatim>\<open>OverflowError\<close> when the step count is too large to convert to a float (magnitude
  \<open>2^1024 - 2^970\<close> or more) and \<^verbatim>\<open>ZeroDivisionError\<close> when it is \<open>0\<close>; for every other step
  count it returns the object, storing \<open>N\<close>, \<open>T / N\<close>, \<open>K\<close>, \<open>S0\<close> and \<open>\<sigma>\<close> as given, whatever
  their signs.
\<close>

theorem constructor_checks_nothing:
  "(int_too_large steps \<longrightarrow>
      BinomialTree_init steps T K S0 sigma r y style = Inl OverflowError) \<and>
   (steps = 0 \<longrightarrow>
      BinomialTree_init steps T K S0 sigma r y style = Inl ZeroDivisionError) \<and>
   (\<not> int_too_large steps \<and> steps \<noteq> 0 \<longrightarrow>
      (\<exists>self. BinomialTree_init steps T K S0 sigma r y style = Inr self \<and>
         self_steps self = steps \<and> self_delta_time self = T / real_of_int steps \<and>
         self_strike self = K \<and> self_current_price self = S0 \<and>
         self_volatility self = sigma))"
proof (intro conjI impI)
  assume "int_too_large steps"
  then show "BinomialTree_init steps T K S0 sigma r y style = Inl OverflowError"
    by (simp add: BinomialTree_init_def)
next
  assume "steps = 0"
  then show "BinomialTree_init steps T K S0 sigma r y style = Inl ZeroDivisionError"
    by (simp add: BinomialTree_init_def int_too_large_def)
next
  assume "\<not> int_too_large steps \<and> steps \<noteq> 0"
  then show "\<exists>self. BinomialTree_init steps T K S0 sigma r y style = Inr self \<and>
         self_steps self = steps \<and> self_delta_time self = T / real_of_int steps \<and>
         self_strike self = K \<and> self_current_price self = S0 \<and>
         self_volatility self = sigma"
    by (simp add: BinomialTree_init_def Let_def split: prod.split)
qed

text \<open>
  A negative step count, maturity, strike, spot price and volatility at once, and the step
  counts \<open>0\<close> and \<open>2^1024\<close>.
\<close>

theorem constructor_checks_nothing_witness:
  "(\<exists>self. BinomialTree_init (- 2) (- 1) (- 3) (- 5) (- 1) 0 0 ''E'' = Inr self \<and>
      self_steps self = - 2 \<and> self_delta_time self = 1 / 2 \<and> self_strike self = - 3 \<and>
      self_current_price self = - 5 \<and> self_volatility self = - 1) \<and>
   BinomialTree_init 0 1 100 100 (1 / 5) 0 0 ''E'' = Inl ZeroDivisionError \<and>
   BinomialTree_init (2 ^ 1024) 1 100 100 (1 / 5) 0 0 ''E'' = Inl OverflowError"
proof -
  have small: "\<not> int_too_large (- 2)" by (rule small_int_converts) simp
  have large: "int_too_large (2 ^ 1024)" by (simp add: int_too_large_def)
  show ?thesis
    using small large
      constructor_checks_nothing [of "- 2" "- 1" "- 3" "- 5" "- 1" 0 0 "''E''"]
      constructor_checks_nothing [of 0 1 100 100 "1 / 5" 0 0 "''E''"]
      constructor_checks_nothing [of "2 ^ 1024" 1 100 100 "1 / 5" 0 0 "''E''"]
    by simp
qed

end
